theory Spec2Isabelle
  imports Main "HOL-Library.Word" "HOL-Library.Char_ord" "HOL-Library.List_Lexorder"
begin

section \<open>Sherlock streams: \<open>Sherlock/sherlock.h\<close>\<close>

text \<open>
  Indices and sizes are \<open>uint64_t\<close>; timestamps are \<open>std::chrono::microseconds\<close>,
  which the code only compares and subtracts, so they are integers here. Member names
  that end in an underscore in the source (\<open>publisher_\<close>, \<open>authority_\<close>,
  \<open>own_data_\<close>) lose it, and the request parameter \<open>i\<close> is \<open>param_i\<close>.
\<close>

type_synonym u64 = "64 word"
type_synonym microseconds = int

record idxts_t =
  index :: u64
  us :: microseconds

record head_optidxts_t =
  head :: microseconds
  idxts :: "idxts_t option"

subsection \<open>The persistence layer\<close>

text \<open>
  \<open>StreamImpl\<close> is a template over \<open>PERSISTENCE_LAYER\<close>, whose code is outside
  \<open>sherlock.h\<close>. The layer is therefore a parameter: a type \<open>'p\<close> of persister
  states and the operations \<open>sherlock.h\<close> calls on it. A mutating operation returns
  what it throws or yields together with the state it leaves. The optional timestamp is
  \<open>None\<close> for \<open>current::time::DefaultTimeArgument\<close>.
\<close>

datatype persister_exception = InconsistentTimestampException

record ('p, 'e) persistence_layer =
  Publish :: "'p \<Rightarrow> 'e \<Rightarrow> microseconds option \<Rightarrow> (persister_exception + idxts_t) \<times> 'p"
  UpdateHead :: "'p \<Rightarrow> microseconds option \<Rightarrow> (persister_exception + unit) \<times> 'p"
  Size :: "'p \<Rightarrow> u64"
  CurrentHead :: "'p \<Rightarrow> microseconds"
  LastPublishedIndexAndTimestamp :: "'p \<Rightarrow> idxts_t"
  HeadAndLastPublishedIndexAndTimestamp :: "'p \<Rightarrow> head_optidxts_t"
  Iterate :: "'p \<Rightarrow> u64 \<Rightarrow> u64 \<Rightarrow> (idxts_t \<times> 'e) list"
  IndexRangeByTimestampRange :: "'p \<Rightarrow> microseconds \<Rightarrow> microseconds \<Rightarrow> u64 \<times> u64"

subsection \<open>Requests, responses and schemas\<close>

text \<open>
  The fields of the value \<open>ParsePubSubHTTPRequest\<close> returns that
  \<open>ServeDataViaHTTP\<close> reads. The parser is in \<open>pubsub.h\<close>; a request carries its
  result.
\<close>

record pubsub_http_request_params =
  terminate_requested :: bool
  terminate_id :: string
  size_only :: bool
  schema_requested :: bool
  schema_format :: string
  param_i :: u64
  tail :: u64
  recent :: microseconds
  since :: microseconds
  no_wait :: bool

record Request =
  http_method :: string
  timestamp :: microseconds
  query_params :: pubsub_http_request_params

datatype HTTPResponseCode = OK | NotFound | MethodNotAllowed | ServiceUnavailable

text \<open>
  Modelled from the spec: the response codes are declared in \<open>Blocks/HTTP\<close>; their
  numbers are 200, 404, 405 and 503.
\<close>

fun status_number :: "HTTPResponseCode \<Rightarrow> nat" where
  "status_number OK = 200"
| "status_number NotFound = 404"
| "status_number MethodNotAllowed = 405"
| "status_number ServiceUnavailable = 503"

record 'si SherlockSchema =
  language :: "string \<rightharpoonup> string"
  type_name :: string
  type_id :: nat
  type_schema :: 'si

record StreamNamespaceName =
  namespace_name :: string
  entry_name :: string

record SherlockSchemaFormatNotFound =
  error :: string
  unsupported_format_requested :: "string option"

text \<open>The default member values of \<open>CURRENT_STRUCT(SherlockSchemaFormatNotFound)\<close>.\<close>

definition default_SherlockSchemaFormatNotFound :: SherlockSchemaFormatNotFound where
  "default_SherlockSchemaFormatNotFound =
     \<lparr>error = ''Unsupported schema format requested.'', unsupported_format_requested = None\<rparr>"

text \<open>
  What a response carries as its body: a string, or an object that the HTTP layer
  serializes. \<open>SubscribableSherlockSchema\<close> lists \<open>type_id\<close>, \<open>entry_name\<close> and
  \<open>namespace_name\<close>, in this order. Content types are left out.
\<close>

datatype 'si http_body =
    Text string
  | DefaultMethodNotAllowedMessage
  | SchemaAsHTTPResponse "'si SherlockSchema"
  | SubscribableSherlockSchema nat string string
  | FormatNotFound SherlockSchemaFormatNotFound

record 'si Response =
  body :: "'si http_body"
  code :: HTTPResponseCode
  headers :: "(string \<times> string) list"

definition respond :: "'si http_body \<Rightarrow> HTTPResponseCode \<Rightarrow> 'si Response" where
  "respond b c = \<lparr>body = b, code = c, headers = []\<rparr>"

text \<open>
  Modelled from the spec: \<open>current::ToString\<close> is in \<open>Bricks/strings\<close>; the size of
  the stream is written in decimal digits.
\<close>

fun ToString :: "nat \<Rightarrow> string" where
  "ToString n =
     (if n < 10 then [char_of (48 + n)] else ToString (n div 10) @ [char_of (48 + n mod 10)])"

declare ToString.simps [simp del]

text \<open>
  Modelled from the spec: the constant \<open>kSherlockHeaderCurrentStreamSize\<close> is declared
  in \<open>pubsub.h\<close>; the header is named \<open>X-Current-Stream-Size\<close>.
\<close>

definition kSherlockHeaderCurrentStreamSize :: string where
  "kSherlockHeaderCurrentStreamSize = ''X-Current-Stream-Size''"

subsection \<open>Stream data, subscriptions and the store\<close>

text \<open>
  An entry of \<open>subscribers_map\<close>: the subscriber scope with its thread instance
  (\<open>begin_idx_\<close>, \<open>termination_requested_\<close>, \<open>terminate_signal_\<close> and the flag
  \<open>subscriber_thread_done_\<close>) and the HTTP endpoint with the request parameters.
\<close>

record http_subscription =
  thread_begin_idx :: u64
  endpoint_params :: pubsub_http_request_params
  termination_requested :: bool
  terminate_signal :: bool
  subscriber_thread_done :: bool

text \<open>\<open>SubscriberThreadInstance::TerminateSubscription\<close>, which \<open>AsyncTerminate\<close> calls.\<close>

definition TerminateSubscription :: "http_subscription \<Rightarrow> http_subscription" where
  "TerminateSubscription t =
     (if \<not> termination_requested t then
        (if \<not> subscriber_thread_done t
         then t\<lparr>termination_requested := True, terminate_signal := True\<rparr>
         else t\<lparr>termination_requested := True\<rparr>)
      else t)"

text \<open>
  \<open>stream_data_t\<close>: the persister, the notifier (the number of times all waiters have
  been notified) and the HTTP subscriptions. \<open>in_destructing_mode\<close> says that the
  owner of the data has begun to destroy it: from then on creating or dereferencing a
  \<open>ScopeOwnedBySomeoneElse\<close> throws \<open>InDestructingModeException\<close>.
\<close>

record 'p stream_data =
  persistence :: 'p
  notifier :: nat
  subscribers_map :: "string \<rightharpoonup> http_subscription"
  in_destructing_mode :: bool

text \<open>
  Stream data is shared by reference between the stream object, publishers and
  subscribers. The store maps the address of each \<open>stream_data_t\<close> to its value.
\<close>

type_synonym addr = nat
type_synonym 'p store = "addr \<Rightarrow> 'p stream_data"

datatype StreamDataAuthority = Own | External

text \<open>A \<open>StreamPublisher\<close> holds \<open>data_\<close>, a reference to the stream data it writes to.\<close>

datatype publisher_t = StreamPublisher addr

record 'si StreamImpl =
  schema_namespace_name :: StreamNamespaceName
  schema_as_object :: "'si SherlockSchema"
  own_data :: addr
  publisher :: "publisher_t option"
  authority :: StreamDataAuthority

datatype stream_exception =
    StreamInGracefulShutdownException
  | PublisherAlreadyReleasedException
  | PublisherAlreadyOwnedException
  | PublishToStreamWithReleasedPublisherException
  | PersisterException persister_exception

subsection \<open>Publishing\<close>

text \<open>
  \<open>StreamPublisher::PublishImpl\<close> and \<open>UpdateHeadImpl\<close>: dereference \<open>data_\<close>,
  lock, call the persister, notify. An exception of the persister leaves before the
  notification.
\<close>

definition StreamPublisher_PublishImpl ::
  "('p, 'e) persistence_layer \<Rightarrow> publisher_t \<Rightarrow> 'e \<Rightarrow> microseconds option \<Rightarrow> 'p store \<Rightarrow>
     (stream_exception + idxts_t) \<times> 'p store" where
  "StreamPublisher_PublishImpl P pub entry t st =
     (case pub of StreamPublisher a \<Rightarrow>
        (let data = st a in
         if in_destructing_mode data then (Inl StreamInGracefulShutdownException, st)
         else
           (case Publish P (persistence data) entry t of
              (Inl x, p') \<Rightarrow> (Inl (PersisterException x), st(a := data\<lparr>persistence := p'\<rparr>))
            | (Inr result, p') \<Rightarrow>
                (Inr result, st(a := data\<lparr>persistence := p', notifier := Suc (notifier data)\<rparr>)))))"

definition StreamPublisher_UpdateHeadImpl ::
  "('p, 'e) persistence_layer \<Rightarrow> publisher_t \<Rightarrow> microseconds option \<Rightarrow> 'p store \<Rightarrow>
     (stream_exception + unit) \<times> 'p store" where
  "StreamPublisher_UpdateHeadImpl P pub t st =
     (case pub of StreamPublisher a \<Rightarrow>
        (let data = st a in
         if in_destructing_mode data then (Inl StreamInGracefulShutdownException, st)
         else
           (case UpdateHead P (persistence data) t of
              (Inl x, p') \<Rightarrow> (Inl (PersisterException x), st(a := data\<lparr>persistence := p'\<rparr>))
            | (Inr result, p') \<Rightarrow>
                (Inr result, st(a := data\<lparr>persistence := p', notifier := Suc (notifier data)\<rparr>)))))"

text \<open>\<open>StreamImpl::PublishImpl\<close> and \<open>StreamImpl::UpdateHeadImpl\<close>.\<close>

definition PublishImpl ::
  "('p, 'e) persistence_layer \<Rightarrow> 'si StreamImpl \<Rightarrow> 'e \<Rightarrow> microseconds option \<Rightarrow> 'p store \<Rightarrow>
     (stream_exception + idxts_t) \<times> 'p store" where
  "PublishImpl P s entry t st =
     (case publisher s of
        Some pub \<Rightarrow> StreamPublisher_PublishImpl P pub entry t st
      | None \<Rightarrow> (Inl PublishToStreamWithReleasedPublisherException, st))"

definition UpdateHeadImpl ::
  "('p, 'e) persistence_layer \<Rightarrow> 'si StreamImpl \<Rightarrow> microseconds option \<Rightarrow> 'p store \<Rightarrow>
     (stream_exception + unit) \<times> 'p store" where
  "UpdateHeadImpl P s t st =
     (case publisher s of
        Some pub \<Rightarrow> StreamPublisher_UpdateHeadImpl P pub t st
      | None \<Rightarrow> (Inl PublishToStreamWithReleasedPublisherException, st))"

text \<open>
  \<open>MovePublisherTo\<close> hands the publisher to the acquirer: the third component is what
  \<open>AcceptPublisher\<close> receives and takes, so that \<open>publisher_\<close> is left null.
  \<open>AcquirePublisher\<close> takes a \<open>std::unique_ptr\<close>, which may be null.
\<close>

definition MovePublisherTo ::
  "'si StreamImpl \<Rightarrow> (stream_exception + unit) \<times> 'si StreamImpl \<times> publisher_t option" where
  "MovePublisherTo s =
     (case publisher s of
        Some pub \<Rightarrow> (Inr (), s\<lparr>publisher := None, authority := External\<rparr>, Some pub)
      | None \<Rightarrow> (Inl PublisherAlreadyReleasedException, s, None))"

definition AcquirePublisher ::
  "publisher_t option \<Rightarrow> 'si StreamImpl \<Rightarrow> (stream_exception + unit) \<times> 'si StreamImpl" where
  "AcquirePublisher pub s =
     (case publisher s of
        None \<Rightarrow> (Inr (), s\<lparr>publisher := pub, authority := Own\<rparr>)
      | Some _ \<Rightarrow> (Inl PublisherAlreadyOwnedException, s))"

definition DataAuthority :: "'si StreamImpl \<Rightarrow> StreamDataAuthority" where
  "DataAuthority s = authority s"

text \<open>
  The constructors: the stream data lives at address \<open>a\<close>, the publisher refers to it
  and the authority is \<open>Own\<close>.
\<close>

definition construct_StreamImpl ::
  "StreamNamespaceName \<Rightarrow> 'si SherlockSchema \<Rightarrow> addr \<Rightarrow> 'si StreamImpl" where
  "construct_StreamImpl nn schema a =
     \<lparr>schema_namespace_name = nn, schema_as_object = schema, own_data = a,
      publisher = Some (StreamPublisher a), authority = Own\<rparr>"

subsection \<open>Serving a stream over HTTP\<close>

text \<open>
  \<open>ServeDataViaHTTP\<close> either answers the request at once or subscribes a chunked
  endpoint to the stream, from an index on; the response then follows from the
  subscriber thread.
\<close>

datatype 'si http_outcome =
    Responded "'si Response"
  | Subscribed string u64 pubsub_http_request_params

text \<open>The branch for \<open>terminate_requested\<close>.\<close>

definition serve_terminate ::
  "pubsub_http_request_params \<Rightarrow> addr \<Rightarrow> 'p store \<Rightarrow> 'si http_outcome \<times> 'p store" where
  "serve_terminate request_params a st =
     (let data = st a in
      case subscribers_map data (terminate_id request_params) of
        Some subscriber_scope \<Rightarrow>
          (Responded (respond (Text []) OK),
           st(a := data\<lparr>subscribers_map :=
             (subscribers_map data)(terminate_id request_params \<mapsto>
                TerminateSubscription subscriber_scope)\<rparr>))
      | None \<Rightarrow> (Responded (respond (Text []) NotFound), st))"

text \<open>The branch for \<open>size_only\<close>.\<close>

definition serve_size_only :: "string \<Rightarrow> u64 \<Rightarrow> 'si Response" where
  "serve_size_only m stream_size =
     (let size_str = ToString (unat stream_size);
          b = (if m = ''GET'' then size_str @ [CHR 0x0A] else [])
      in \<lparr>body = Text b, code = OK, headers = [(kSherlockHeaderCurrentStreamSize, size_str)]\<rparr>)"

text \<open>The branch for \<open>schema_requested\<close>.\<close>

definition serve_schema :: "'si StreamImpl \<Rightarrow> string \<Rightarrow> 'si Response" where
  "serve_schema s fmt =
     (if fmt = [] then respond (SchemaAsHTTPResponse (schema_as_object s)) OK
      else if fmt = ''simple'' then
        respond (SubscribableSherlockSchema (type_id (schema_as_object s))
                   (entry_name (schema_namespace_name s))
                   (namespace_name (schema_namespace_name s))) OK
      else
        (case language (schema_as_object s) fmt of
           Some schema_text \<Rightarrow> respond (Text schema_text) OK
         | None \<Rightarrow>
             respond (FormatNotFound
               (default_SherlockSchemaFormatNotFound\<lparr>unsupported_format_requested := Some fmt\<rparr>))
               NotFound))"

text \<open>
  The choice of the first index to serve. The result is \<open>begin_idx\<close> and the request
  parameters, whose \<open>tail\<close> the code overwrites in one case.
\<close>

definition select_begin_idx ::
  "('p, 'e) persistence_layer \<Rightarrow> 'p \<Rightarrow> microseconds \<Rightarrow> pubsub_http_request_params \<Rightarrow> u64 \<Rightarrow>
     u64 \<times> pubsub_http_request_params" where
  "select_begin_idx P p r_timestamp request_params stream_size =
     (let (begin_idx0, from_timestamp, request_params') =
        (if tail request_params \<noteq> 0 then
           (if tail request_params = - 1 then
              (stream_size, 0, request_params\<lparr>tail := stream_size\<rparr>)
            else
              (let idx_by_tail =
                 (if tail request_params < stream_size
                  then stream_size - tail request_params else 0)
               in (max (param_i request_params) idx_by_tail, 0, request_params)))
         else if recent request_params > 0 then
           (0, r_timestamp - recent request_params, request_params)
         else if since request_params > 0 then
           (0, since request_params, request_params)
         else (param_i request_params, 0, request_params))
      in
        if from_timestamp > 0 then
          (let idx_by_timestamp =
             min (fst (IndexRangeByTimestampRange P p from_timestamp 0)) stream_size
           in (max begin_idx0 idx_by_timestamp, request_params'))
        else (begin_idx0, request_params'))"

text \<open>
  The subscription: \<open>Subscribe\<close> starts the subscriber thread, and the scope enters
  \<open>subscribers_map\<close> unless the identifier is already there, in which case the new
  scope is dropped at the end of the block.
\<close>

definition new_http_subscription :: "u64 \<Rightarrow> pubsub_http_request_params \<Rightarrow> http_subscription" where
  "new_http_subscription b request_params =
     \<lparr>thread_begin_idx = b, endpoint_params = request_params, termination_requested = False,
      terminate_signal = False, subscriber_thread_done = False\<rparr>"

definition serve_subscribe ::
  "string \<Rightarrow> u64 \<Rightarrow> pubsub_http_request_params \<Rightarrow> addr \<Rightarrow> 'p store \<Rightarrow>
     'si http_outcome \<times> 'p store" where
  "serve_subscribe subscription_id b request_params a st =
     (let data = st a in
      (Subscribed subscription_id b request_params,
       if subscribers_map data subscription_id = None then
         st(a := data\<lparr>subscribers_map :=
           (subscribers_map data)(subscription_id \<mapsto> new_http_subscription b request_params)\<rparr>)
       else st))"

text \<open>
  \<open>ServeDataViaHTTP\<close>. \<open>subscription_id\<close> is what
  \<open>GenerateRandomHTTPSubscriptionID\<close> returns when it is called.
\<close>

definition ServeDataViaHTTP ::
  "('p, 'e) persistence_layer \<Rightarrow> string \<Rightarrow> 'si StreamImpl \<Rightarrow> Request \<Rightarrow> 'p store \<Rightarrow>
     'si http_outcome \<times> 'p store" where
  "ServeDataViaHTTP P subscription_id s r st =
     (let data = st (own_data s) in
      if in_destructing_mode data then (Responded (respond (Text []) ServiceUnavailable), st)
      else
        (let request_params = query_params r in
         if terminate_requested request_params then serve_terminate request_params (own_data s) st
         else if http_method r \<noteq> ''GET'' \<and> http_method r \<noteq> ''HEAD'' then
           (Responded (respond DefaultMethodNotAllowedMessage MethodNotAllowed), st)
         else
           (let stream_size = Size P (persistence data) in
            if size_only request_params then
              (Responded (serve_size_only (http_method r) stream_size), st)
            else if schema_requested request_params then
              (Responded (serve_schema s (schema_format request_params)), st)
            else
              (case select_begin_idx P (persistence data) (timestamp r) request_params stream_size of
                 (b, request_params') \<Rightarrow>
                   if no_wait request_params' \<and> b \<ge> stream_size then
                     (Responded (respond (Text []) OK), st)
                   else serve_subscribe subscription_id b request_params' (own_data s) st))))"

subsection \<open>The subscriber thread\<close>

datatype EntryResponse = Continue | Done

datatype TerminationResponse = Wait | Terminate

text \<open>
  The subscriber \<open>F\<close>, with its state of type \<open>'s\<close>: the call with an entry, its index
  and timestamp and the last published ones; the call with a head alone;
  \<open>EntryResponseIfNoMorePassTypeFilter\<close>; \<open>Terminate\<close>; and the test whether an entry
  is of the type \<open>TYPE_SUBSCRIBED_TO\<close>.
\<close>

record ('s, 'e) subscriber_t =
  subscriber_entry :: "'e \<Rightarrow> idxts_t \<Rightarrow> idxts_t \<Rightarrow> 's \<Rightarrow> EntryResponse \<times> 's"
  subscriber_head :: "microseconds \<Rightarrow> 's \<Rightarrow> EntryResponse \<times> 's"
  EntryResponseIfNoMorePassTypeFilter :: "'s \<Rightarrow> EntryResponse"
  subscriber_Terminate :: "'s \<Rightarrow> TerminationResponse \<times> 's"
  type_subscribed_to :: "'e \<Rightarrow> bool"

text \<open>
  The calls the thread makes to the subscriber, in order. A \<open>HeadCall\<close> records the
  head passed to the subscriber and, beside it, the values the local variables
  \<open>size\<close> and \<open>head\<close> hold when the call is made.
\<close>

datatype 'e subscriber_call =
    TerminateCall
  | EntryCall 'e idxts_t idxts_t
  | NoMoreCall idxts_t
  | HeadCall microseconds u64 microseconds

text \<open>
  Modelled from the spec: \<open>PassEntryToSubscriberIfTypeMatches\<close> is in \<open>Blocks/SS\<close>,
  in another part of the repository. An entry whose type satisfies the filter is delivered
  with its index and timestamp and the last published ones; for any other entry the
  subscriber is asked for its response to an entry that does not pass.
\<close>

definition PassEntryToSubscriberIfTypeMatches ::
  "('s, 'e) subscriber_t \<Rightarrow> 'e \<Rightarrow> idxts_t \<Rightarrow> idxts_t \<Rightarrow> 's \<Rightarrow>
     EntryResponse \<times> 's \<times> 'e subscriber_call list" where
  "PassEntryToSubscriberIfTypeMatches F entry idx_ts last_idx_ts s =
     (if type_subscribed_to F entry then
        (case subscriber_entry F entry idx_ts last_idx_ts s of
           (response, s') \<Rightarrow> (response, s', [EntryCall entry idx_ts last_idx_ts]))
      else (EntryResponseIfNoMorePassTypeFilter F s, s, [NoMoreCall idx_ts]))"

text \<open>
  What the thread reads of the shared state in one pass of its loop, and while it
  waits: the termination signal and the persister at the top of the pass, and, for
  each entry it passes on, the termination signal and the persister at that moment.
  An execution of the thread is driven by the list of these observations, in order.
  Published entries never change, so \<open>Iterate(index, size)\<close> yields the same entries
  in the snapshot as in any later state, and is read from the snapshot.
\<close>

record 'p observation =
  signal :: bool
  snapshot :: 'p
  signal_at :: "u64 \<Rightarrow> bool"
  persistence_at :: "u64 \<Rightarrow> 'p"

text \<open>
  The local variables of \<open>ThreadImpl\<close>, \<open>head\<close>, \<open>index\<close>, \<open>size\<close> and
  \<open>terminate_sent\<close>, and the state of the subscriber.
\<close>

record 's thread_vars =
  var_head :: microseconds
  var_index :: u64
  var_size :: u64
  terminate_sent :: bool
  subscriber :: 's

definition initial_thread_vars :: "u64 \<Rightarrow> 's \<Rightarrow> 's thread_vars" where
  "initial_thread_vars b s =
     \<lparr>var_head = - 1, var_index = b, var_size = 0, terminate_sent = False, subscriber = s\<rparr>"

datatype thread_status = Running | Returned | NoValueException

text \<open>
  The test \<open>if (!terminate_sent && terminate_signal_)\<close> with its body. The first
  component says whether the thread returns.
\<close>

definition check_terminate ::
  "('s, 'e) subscriber_t \<Rightarrow> bool \<Rightarrow> 's thread_vars \<Rightarrow>
     bool \<times> 's thread_vars \<times> 'e subscriber_call list" where
  "check_terminate F sig v =
     (if \<not> terminate_sent v \<and> sig then
        (case subscriber_Terminate F (subscriber v) of
           (response, s') \<Rightarrow>
             (response \<noteq> Wait, v\<lparr>terminate_sent := True, subscriber := s'\<rparr>, [TerminateCall]))
      else (False, v, []))"

text \<open>The loop over \<open>Iterate(index, size)\<close>.\<close>

fun pass_entries ::
  "('s, 'e) subscriber_t \<Rightarrow> ('p, 'e) persistence_layer \<Rightarrow> 'p observation \<Rightarrow>
     (idxts_t \<times> 'e) list \<Rightarrow> 's thread_vars \<Rightarrow> bool \<times> 's thread_vars \<times> 'e subscriber_call list" where
  "pass_entries F P ob [] v = (False, v, [])"
| "pass_entries F P ob (e # es) v =
     (case check_terminate F (signal_at ob (index (fst e))) v of
        (returns, v1, c1) \<Rightarrow>
          if returns then (True, v1, c1)
          else
            (case PassEntryToSubscriberIfTypeMatches F (snd e) (fst e)
                    (LastPublishedIndexAndTimestamp P (persistence_at ob (index (fst e))))
                    (subscriber v1) of
               (response, s2, c2) \<Rightarrow>
                 if response = Done then (True, v1\<lparr>subscriber := s2\<rparr>, c1 @ c2)
                 else
                   (case pass_entries F P ob es (v1\<lparr>subscriber := s2\<rparr>) of
                      (returns3, v3, c3) \<Rightarrow> (returns3, v3, c1 @ c2 @ c3))))"

text \<open>
  One pass of \<open>while (true)\<close>: the thread returns, or throws because \<open>Value\<close> meets
  an empty optional, or goes on to the next pass, or waits first.
\<close>

datatype 's pass_result =
    Exit thread_status
  | Next "'s thread_vars"
  | Blocked "'s thread_vars"

definition deliver_head ::
  "('s, 'e) subscriber_t \<Rightarrow> u64 \<Rightarrow> head_optidxts_t \<Rightarrow> 's thread_vars \<Rightarrow>
     's pass_result \<times> 'e subscriber_call list" where
  "deliver_head F b head_idx v =
     (if var_size v > b \<and> head head_idx > var_head v then
        (case subscriber_head F (head head_idx) (subscriber v) of
           (response, s') \<Rightarrow>
             (if response = Done then Exit Returned
              else Next (v\<lparr>var_head := head head_idx, subscriber := s'\<rparr>),
              [HeadCall (head head_idx) (var_size v) (var_head v)]))
      else (Next (v\<lparr>var_head := head head_idx\<rparr>), []))"

definition loop_pass ::
  "('s, 'e) subscriber_t \<Rightarrow> ('p, 'e) persistence_layer \<Rightarrow> u64 \<Rightarrow> 'p observation \<Rightarrow>
     's thread_vars \<Rightarrow> 's pass_result \<times> 'e subscriber_call list" where
  "loop_pass F P b ob v =
     (case check_terminate F (signal ob) v of
        (returns, v0, c0) \<Rightarrow>
          if returns then (Exit Returned, c0)
          else
            (let head_idx = HeadAndLastPublishedIndexAndTimestamp P (snapshot ob);
                 v1 = v0\<lparr>var_size := (case idxts head_idx of Some l \<Rightarrow> index l + 1 | None \<Rightarrow> 0)\<rparr>
             in
               if head head_idx > var_head v1 then
                 (if var_size v1 > var_index v1 then
                    (case pass_entries F P ob (Iterate P (snapshot ob) (var_index v1) (var_size v1)) v1 of
                       (returns2, v2, c2) \<Rightarrow>
                         if returns2 then (Exit Returned, c0 @ c2)
                         else
                           (case idxts head_idx of
                              None \<Rightarrow> (Exit NoValueException, c0 @ c2)
                            | Some l \<Rightarrow>
                                (case deliver_head F b head_idx
                                        (v2\<lparr>var_index := var_size v1, var_head := us l\<rparr>) of
                                   (result, c3) \<Rightarrow> (result, c0 @ c2 @ c3))))
                  else
                    (case deliver_head F b head_idx v1 of
                       (result, c3) \<Rightarrow> (result, c0 @ c3)))
               else (Blocked v1, c0)))"

text \<open>The predicate of \<open>WaitUntil\<close>.\<close>

definition wait_predicate ::
  "('p, 'e) persistence_layer \<Rightarrow> u64 \<Rightarrow> 's thread_vars \<Rightarrow> 'p observation \<Rightarrow> bool" where
  "wait_predicate P b v ob =
     (signal ob \<or> Size P (snapshot ob) > var_index v \<or>
      (var_index v > b \<and> CurrentHead P (snapshot ob) > var_head v))"

text \<open>
  \<open>ThreadImpl\<close>, from given local variables on: one pass for each observation; a
  waiting thread lets the observations go by until one satisfies the predicate. The
  result is the status when the observations end, and the calls made to the subscriber.
\<close>

function ThreadImpl_from ::
  "('s, 'e) subscriber_t \<Rightarrow> ('p, 'e) persistence_layer \<Rightarrow> u64 \<Rightarrow> 'p observation list \<Rightarrow>
     's thread_vars \<Rightarrow> thread_status \<times> 'e subscriber_call list" where
  "ThreadImpl_from F P b [] v = (Running, [])"
| "ThreadImpl_from F P b (ob # obs) v =
     (case loop_pass F P b ob v of
        (Exit status, c) \<Rightarrow> (status, c)
      | (Next v', c) \<Rightarrow>
          (case ThreadImpl_from F P b obs v' of (status, c') \<Rightarrow> (status, c @ c'))
      | (Blocked v', c) \<Rightarrow>
          (case ThreadImpl_from F P b (dropWhile (\<lambda>ob'. \<not> wait_predicate P b v' ob') obs) v' of
             (status, c') \<Rightarrow> (status, c @ c')))"
  by pat_completeness auto
termination
  by (relation "measure (\<lambda>(F, P, b, obs, v). length obs)")
    (auto simp add: less_Suc_eq_le length_dropWhile_le)

definition ThreadImpl ::
  "('s, 'e) subscriber_t \<Rightarrow> ('p, 'e) persistence_layer \<Rightarrow> u64 \<Rightarrow> 's \<Rightarrow> 'p observation list \<Rightarrow>
     thread_status \<times> 'e subscriber_call list" where
  "ThreadImpl F P begin_idx s obs = ThreadImpl_from F P begin_idx obs (initial_thread_vars begin_idx s)"

text \<open>The heads among the calls, in order.\<close>

fun heads_delivered :: "'e subscriber_call list \<Rightarrow> microseconds list" where
  "heads_delivered [] = []"
| "heads_delivered (HeadCall h sz old # cs) = h # heads_delivered cs"
| "heads_delivered (c # cs) = heads_delivered cs"

text \<open>
  What the thread relies on in a state of the persister: the head is not before the
  timestamp of the last entry, and no entry that \<open>Iterate\<close> yields up to the last one
  has a timestamp after it.
\<close>

definition persister_consistent :: "('p, 'e) persistence_layer \<Rightarrow> 'p \<Rightarrow> bool" where
  "persister_consistent P p =
     (case idxts (HeadAndLastPublishedIndexAndTimestamp P p) of
        None \<Rightarrow> True
      | Some l \<Rightarrow>
          us l \<le> head (HeadAndLastPublishedIndexAndTimestamp P p) \<and>
          (\<forall>from. \<forall>e \<in> set (Iterate P p from (index l + 1)). us (fst e) \<le> us l))"

text \<open>
  An invariant of the list of calls, for the proofs. \<open>bound\<close> is at least every head
  and every timestamp of an entry passed to the subscriber so far: each head passed on
  exceeds it, and a head is passed on only when \<open>size\<close> exceeds \<open>begin_idx\<close> and the
  head exceeds the local variable \<open>head\<close>.
\<close>

fun calls_ok :: "u64 \<Rightarrow> microseconds \<Rightarrow> 'e subscriber_call list \<Rightarrow> bool" where
  "calls_ok b bound [] = True"
| "calls_ok b bound (EntryCall e idx_ts l # cs) = calls_ok b (max bound (us idx_ts)) cs"
| "calls_ok b bound (HeadCall h sz old # cs) =
     (bound < h \<and> b < sz \<and> old < h \<and> calls_ok b h cs)"
| "calls_ok b bound (c # cs) = calls_ok b bound cs"

fun bound_after :: "microseconds \<Rightarrow> 'e subscriber_call list \<Rightarrow> microseconds" where
  "bound_after bound [] = bound"
| "bound_after bound (EntryCall e idx_ts l # cs) = bound_after (max bound (us idx_ts)) cs"
| "bound_after bound (HeadCall h sz old # cs) = bound_after h cs"
| "bound_after bound (c # cs) = bound_after bound cs"

text \<open>Calls without a head, whose entries have timestamps up to \<open>u\<close>.\<close>

fun entries_upto :: "microseconds \<Rightarrow> 'e subscriber_call list \<Rightarrow> bool" where
  "entries_upto u [] = True"
| "entries_upto u (EntryCall e idx_ts l # cs) = (us idx_ts \<le> u \<and> entries_upto u cs)"
| "entries_upto u (HeadCall h sz old # cs) = False"
| "entries_upto u (c # cs) = entries_upto u cs"

subsection \<open>A persistence layer in memory\<close>

text \<open>
  Modelled from the spec: the persisters are in \<open>Blocks/Persistence\<close>, in another part of
  the repository. This one follows the contract of the persister interface: the log is
  a list of entries with their timestamps, indexed from 0, beside the head. \<open>now\<close> is
  the time the persister reads when a call gives no timestamp. It instantiates the
  persistence layer where a concrete one is needed.
\<close>

record 'e memory_persister =
  log_entries :: "(microseconds \<times> 'e) list"
  memory_head :: microseconds
  now :: microseconds

definition last_us :: "'e memory_persister \<Rightarrow> microseconds option" where
  "last_us m = (case log_entries m of [] \<Rightarrow> None | _ \<Rightarrow> Some (fst (last (log_entries m))))"

definition memory_append :: "'e memory_persister \<Rightarrow> 'e \<Rightarrow> microseconds \<Rightarrow>
    (persister_exception + idxts_t) \<times> 'e memory_persister" where
  "memory_append m e u =
     (Inr \<lparr>index = of_nat (length (log_entries m)), us = u\<rparr>,
      m\<lparr>log_entries := log_entries m @ [(u, e)], memory_head := max (memory_head m) u\<rparr>)"

definition memory_Publish :: "'e memory_persister \<Rightarrow> 'e \<Rightarrow> microseconds option \<Rightarrow>
    (persister_exception + idxts_t) \<times> 'e memory_persister" where
  "memory_Publish m e t =
     (case t of
        None \<Rightarrow>
          memory_append m e (case last_us m of None \<Rightarrow> now m | Some l \<Rightarrow> max (now m) (l + 1))
      | Some u \<Rightarrow>
          (case last_us m of
             None \<Rightarrow> memory_append m e u
           | Some l \<Rightarrow>
               if u > l then memory_append m e u else (Inl InconsistentTimestampException, m)))"

definition memory_UpdateHead :: "'e memory_persister \<Rightarrow> microseconds option \<Rightarrow>
    (persister_exception + unit) \<times> 'e memory_persister" where
  "memory_UpdateHead m t =
     (case t of
        None \<Rightarrow> (Inr (), m\<lparr>memory_head := max (memory_head m) (now m)\<rparr>)
      | Some u \<Rightarrow>
          if u < memory_head m \<or> (case last_us m of None \<Rightarrow> False | Some l \<Rightarrow> u \<le> l)
          then (Inl InconsistentTimestampException, m)
          else (Inr (), m\<lparr>memory_head := max (memory_head m) u\<rparr>))"

definition memory_idxts :: "'e memory_persister \<Rightarrow> nat \<Rightarrow> idxts_t" where
  "memory_idxts m k = \<lparr>index = of_nat k, us = fst (log_entries m ! k)\<rparr>"

definition memory_last :: "'e memory_persister \<Rightarrow> idxts_t option" where
  "memory_last m =
     (case log_entries m of [] \<Rightarrow> None | _ \<Rightarrow> Some (memory_idxts m (length (log_entries m) - 1)))"

definition memory_Iterate :: "'e memory_persister \<Rightarrow> u64 \<Rightarrow> u64 \<Rightarrow> (idxts_t \<times> 'e) list" where
  "memory_Iterate m b e =
     map (\<lambda>k. (memory_idxts m k, snd (log_entries m ! k)))
       [unat b ..< min (unat e) (length (log_entries m))]"

definition memory_IndexRangeByTimestampRange ::
  "'e memory_persister \<Rightarrow> microseconds \<Rightarrow> microseconds \<Rightarrow> u64 \<times> u64" where
  "memory_IndexRangeByTimestampRange m from to =
     (of_nat (length (takeWhile (\<lambda>x. fst x < from) (log_entries m))),
      if to = 0 then of_nat (length (log_entries m))
      else of_nat (length (takeWhile (\<lambda>x. fst x \<le> to) (log_entries m))))"

definition memory_layer :: "('e memory_persister, 'e) persistence_layer" where
  "memory_layer =
     \<lparr>Publish = memory_Publish,
      UpdateHead = memory_UpdateHead,
      Size = (\<lambda>m. of_nat (length (log_entries m))),
      CurrentHead = memory_head,
      LastPublishedIndexAndTimestamp = (\<lambda>m. memory_idxts m (length (log_entries m) - 1)),
      HeadAndLastPublishedIndexAndTimestamp = (\<lambda>m. \<lparr>head = memory_head m, idxts = memory_last m\<rparr>),
      Iterate = memory_Iterate,
      IndexRangeByTimestampRange = memory_IndexRangeByTimestampRange\<rparr>"

subsection \<open>Subscription requests and their starting index\<close>

text \<open>
  A request is a subscription request when \<open>ServeDataViaHTTP\<close> reaches the choice of
  the starting index: the stream data is not being destroyed, no termination is asked
  for, the HTTP method is \<open>GET\<close> or \<open>HEAD\<close>, and neither the size nor the schema is asked
  for. Its starting index is the \<open>begin_idx\<close> the code has computed when it tests
  \<open>no_wait\<close>.
\<close>

definition is_subscription_request :: "'si StreamImpl \<Rightarrow> Request \<Rightarrow> 'p store \<Rightarrow> bool" where
  "is_subscription_request s r st =
     (\<not> in_destructing_mode (st (own_data s)) \<and>
      \<not> terminate_requested (query_params r) \<and>
      (http_method r = ''GET'' \<or> http_method r = ''HEAD'') \<and>
      \<not> size_only (query_params r) \<and>
      \<not> schema_requested (query_params r))"

definition starting_index ::
  "('p, 'e) persistence_layer \<Rightarrow> 'si StreamImpl \<Rightarrow> Request \<Rightarrow> 'p store \<Rightarrow> u64" where
  "starting_index P s r st =
     fst (select_begin_idx P (persistence (st (own_data s))) (timestamp r) (query_params r)
            (Size P (persistence (st (own_data s)))))"

subsection \<open>A stream for examples\<close>

text \<open>
  Three entries, published at 100, 200 and 300 microseconds, in the memory layer; a
  store that holds this stream data at every address; a stream object on address 0 with
  one language in its schema; and a request with no option set.
\<close>

definition example_persister :: "string memory_persister" where
  "example_persister =
     \<lparr>log_entries = [(100, ''A''), (200, ''B''), (300, ''C'')], memory_head = 300, now = 1000\<rparr>"

definition example_store :: "string memory_persister store" where
  "example_store =
     (\<lambda>a. \<lparr>persistence = example_persister, notifier = 0,
           subscribers_map = Map.empty, in_destructing_mode = False\<rparr>)"

definition example_stream :: "unit StreamImpl" where
  "example_stream =
     construct_StreamImpl
       \<lparr>namespace_name = ''SherlockSchema'', entry_name = ''TopLevelTransaction''\<rparr>
       \<lparr>language = [''cpp'' \<mapsto> ''struct Entry;''], type_name = ''Entry'', type_id = 9000,
        type_schema = ()\<rparr> 0"

definition no_params :: pubsub_http_request_params where
  "no_params =
     \<lparr>terminate_requested = False, terminate_id = [], size_only = False,
      schema_requested = False, schema_format = [], param_i = 0, tail = 0, recent = 0,
      since = 0, no_wait = False\<rparr>"

definition GET :: "pubsub_http_request_params \<Rightarrow> Request" where
  "GET request_params = \<lparr>http_method = ''GET'', timestamp = 1000, query_params = request_params\<rparr>"

subsection \<open>A subscriber and a run for examples\<close>

text \<open>
  A subscriber that takes every entry and every head and goes on, and counts its calls;
  and three observations of a stream in the memory layer: one entry at 100
  microseconds; then the head advanced to 150; then a second entry at 200 and the head
  at 250. No termination is signalled.
\<close>

definition counting_subscriber :: "(nat, string) subscriber_t" where
  "counting_subscriber =
     \<lparr>subscriber_entry = (\<lambda>entry idx_ts l n. (Continue, Suc n)),
      subscriber_head = (\<lambda>h n. (Continue, Suc n)),
      EntryResponseIfNoMorePassTypeFilter = (\<lambda>n. Continue),
      subscriber_Terminate = (\<lambda>n. (Terminate, n)),
      type_subscribed_to = (\<lambda>entry. True)\<rparr>"

definition observe :: "string memory_persister \<Rightarrow> string memory_persister observation" where
  "observe m = \<lparr>signal = False, snapshot = m, signal_at = (\<lambda>k. False), persistence_at = (\<lambda>k. m)\<rparr>"

definition example_observations :: "string memory_persister observation list" where
  "example_observations =
     [observe \<lparr>log_entries = [(100, ''A'')], memory_head = 100, now = 100\<rparr>,
      observe \<lparr>log_entries = [(100, ''A'')], memory_head = 150, now = 150\<rparr>,
      observe \<lparr>log_entries = [(100, ''A''), (200, ''B'')], memory_head = 250, now = 250\<rparr>]"

section \<open>Line grouping: \<open>bricks/strings/group_by_lines.h\<close>\<close>

text \<open>
  \<open>GenericStatefulGroupByLines\<close> keeps the callback \<open>f_\<close> and the string
  \<open>residual_\<close>. The callback only receives lines, so it is modelled by the list of
  the lines it has been called with so far, oldest first.
\<close>

record group_by_lines =
  residual :: string
  f_calls :: "string list"

definition NUL :: char where
  "NUL = CHR 0x00"

definition NL :: char where
  "NL = CHR 0x0A"

text \<open>
  \<open>Feed(const char* s)\<close>. The argument list is what the pointer \<open>s\<close> walks over;
  its end stands for the terminating zero byte of the C string. A zero byte inside a
  \<open>std::string\<close> stops the walk as well, since \<open>Feed(const std::string&)\<close> hands
  \<open>s.c_str()\<close> to this loop and the loop tests \<open>*s\<close>.
\<close>

fun Feed_cstr :: "string \<Rightarrow> group_by_lines \<Rightarrow> group_by_lines" where
  "Feed_cstr [] g = g"
| "Feed_cstr (c # cs) g =
     (if c = NUL then g
      else if c = NL then Feed_cstr cs (g\<lparr>f_calls := f_calls g @ [residual g], residual := []\<rparr>)
      else Feed_cstr cs (g\<lparr>residual := residual g @ [c]\<rparr>))"

definition Feed :: "string \<Rightarrow> group_by_lines \<Rightarrow> group_by_lines" where
  "Feed s g = Feed_cstr s g"

definition construct_group_by_lines :: group_by_lines where
  "construct_group_by_lines = \<lparr>residual = [], f_calls = []\<rparr>"

text \<open>The destructor forwards the last incomplete line when there is one.\<close>

definition destroy_group_by_lines :: "group_by_lines \<Rightarrow> string list" where
  "destroy_group_by_lines g =
     (if residual g \<noteq> [] then f_calls g @ [residual g] else f_calls g)"

text \<open>Construct, feed the chunks in order, destroy: the lines the callback saw.\<close>

definition feed_all :: "string list \<Rightarrow> string list" where
  "feed_all chunks = destroy_group_by_lines (foldl (\<lambda>g s. Feed s g) construct_group_by_lines chunks)"

text \<open>
  The lines of a text as the documentation describes them: one line for each newline,
  holding the text since the previous newline, and the text after the last newline when
  it is not empty.
\<close>

fun lines_from :: "string \<Rightarrow> string \<Rightarrow> string list" where
  "lines_from cur [] = (if cur \<noteq> [] then [cur] else [])"
| "lines_from cur (c # cs) =
     (if c = NL then cur # lines_from [] cs else lines_from (cur @ [c]) cs)"

definition lines_of :: "string \<Rightarrow> string list" where
  "lines_of s = lines_from [] s"


section \<open>JSON for \<open>std::map\<close>: \<open>TypeSystem/Serialization/json/map.h\<close>\<close>

text \<open>
  A \<open>rapidjson::Value\<close>. The members of an object are kept in the order in which they
  were added, and a member's name is itself a string value.
\<close>

datatype json =
    JNull
  | JBool bool
  | JNumber int
  | JString string
  | JArray "json list"
  | JObject "(string \<times> json) list"

text \<open>
  \<open>JSONSchemaException(expected, source, path)\<close>, the exception the loaders throw.
\<close>

datatype json_exception = JSONSchemaException string "json option" string

text \<open>
  A \<open>std::map\<close> is the list of its elements in the order of iteration, which is the
  order of the keys; the keys are distinct. \<open>emplace\<close> inserts an element unless the
  key is already there.
\<close>

type_synonym ('k, 'v) std_map = "('k \<times> 'v) list"

definition std_map_invariant :: "('k :: linorder, 'v) std_map \<Rightarrow> bool" where
  "std_map_invariant m = sorted_wrt (<) (map fst m)"

fun emplace :: "'k :: linorder \<Rightarrow> 'v \<Rightarrow> ('k, 'v) std_map \<Rightarrow> ('k, 'v) std_map" where
  "emplace k v [] = [(k, v)]"
| "emplace k v (x # m) =
     (if k < fst x then (k, v) # x # m
      else if k = fst x then x # m
      else x # emplace k v m)"

text \<open>
  The serializers and loaders of the key type and the value type live elsewhere
  (\<open>json.h\<close> and the headers of the other types), so they are parameters:
  \<open>Inner\<close> of the stringifier for a key and for a value, \<open>LoadFromJSONImpl<TK, J>::Load\<close>
  and \<open>LoadFromJSONImpl<TV, J>::Load\<close>, which read a value into a destination that
  holds an earlier value, and the default-constructed \<open>TK k\<close> and \<open>TV v\<close>.
\<close>

record ('k, 'v) inner_json =
  Inner_key :: "'k \<Rightarrow> json"
  Inner_value :: "'v \<Rightarrow> json"
  Load_key :: "json \<Rightarrow> 'k \<Rightarrow> string \<Rightarrow> json_exception + 'k"
  Load_value :: "json \<Rightarrow> 'v \<Rightarrow> string \<Rightarrow> json_exception + 'v"
  default_key :: 'k
  default_value :: 'v

text \<open>\<open>SerializeImpl<JSONStringifier, std::map<TK, TV>>::DoSerialize\<close>.\<close>

definition DoSerialize_map :: "('k, 'v) inner_json \<Rightarrow> ('k, 'v) std_map \<Rightarrow> json" where
  "DoSerialize_map C m =
     JArray (map (\<lambda>element. JArray [Inner_key C (fst element), Inner_value C (snd element)]) m)"

text \<open>\<open>SerializeImpl<JSONStringifier, std::map<std::string, TV>>::DoSerialize\<close>.\<close>

definition DoSerialize_string_map :: "(string, 'v) inner_json \<Rightarrow> (string, 'v) std_map \<Rightarrow> json" where
  "DoSerialize_string_map C m =
     JObject (map (\<lambda>element. (fst element, Inner_value C (snd element))) m)"

text \<open>
  \<open>Load\<close> for a map with \<open>std::string\<close> keys. The loop over the members reuses one
  \<open>k\<close> and one \<open>v\<close>, declared before it. A result \<open>Inl\<close> is the exception thrown,
  \<open>Inr\<close> the destination on return.
\<close>

fun load_members ::
  "(string, 'v) inner_json \<Rightarrow> string \<Rightarrow> (string \<times> json) list \<Rightarrow> string \<Rightarrow> 'v \<Rightarrow>
     (string, 'v) std_map \<Rightarrow> json_exception + (string, 'v) std_map" where
  "load_members C path [] k v destination = Inr destination"
| "load_members C path (member # members) k v destination =
     (case Load_key C (JString (fst member)) k path of
        Inl e \<Rightarrow> Inl e
      | Inr k' \<Rightarrow>
          (case Load_value C (snd member) v path of
             Inl e \<Rightarrow> Inl e
           | Inr v' \<Rightarrow> load_members C path members k' v' (emplace k' v' destination)))"

definition Load_string_map ::
  "(string, 'v) inner_json \<Rightarrow> bool \<Rightarrow> json option \<Rightarrow> (string, 'v) std_map \<Rightarrow> string \<Rightarrow>
     json_exception + (string, 'v) std_map" where
  "Load_string_map C JSONPatchMode source destination path =
     (case source of
        Some (JObject members) \<Rightarrow>
          load_members C path members (default_key C) (default_value C) []
      | _ \<Rightarrow>
          if \<not> JSONPatchMode \<or> source \<noteq> None
          then Inl (JSONSchemaException ''map as object'' source path)
          else Inr destination)"

text \<open>\<open>Load\<close> for a map with keys of another type.\<close>

fun load_entries ::
  "('k :: linorder, 'v) inner_json \<Rightarrow> json option \<Rightarrow> string \<Rightarrow> json list \<Rightarrow>
     ('k, 'v) std_map \<Rightarrow> json_exception + ('k, 'v) std_map" where
  "load_entries C source path [] destination = Inr destination"
| "load_entries C source path (entry # entries) destination =
     (case entry of
        JArray kv \<Rightarrow>
          if length kv \<noteq> 2 then
            Inl (JSONSchemaException ''map entry as array of two elements'' source path)
          else
            (case Load_key C (kv ! 0) (default_key C) path of
               Inl e \<Rightarrow> Inl e
             | Inr k \<Rightarrow>
                 (case Load_value C (kv ! 1) (default_value C) path of
                    Inl e \<Rightarrow> Inl e
                  | Inr v \<Rightarrow> load_entries C source path entries (emplace k v destination)))
      | _ \<Rightarrow> Inl (JSONSchemaException ''map entry as array'' source path))"

definition Load_map ::
  "('k :: linorder, 'v) inner_json \<Rightarrow> bool \<Rightarrow> json option \<Rightarrow> ('k, 'v) std_map \<Rightarrow> string \<Rightarrow>
     json_exception + ('k, 'v) std_map" where
  "Load_map C JSONPatchMode source destination path =
     (case source of
        Some (JArray entries) \<Rightarrow> load_entries C source path entries []
      | _ \<Rightarrow>
          if \<not> JSONPatchMode \<or> source \<noteq> None
          then Inl (JSONSchemaException ''map as array'' source path)
          else Inr destination)"

text \<open>An entry as the loader wants it: an array of exactly two elements.\<close>

definition is_pair_array :: "json \<Rightarrow> bool" where
  "is_pair_array x = (case x of JArray kv \<Rightarrow> length kv = 2 | _ \<Rightarrow> False)"

text \<open>
  Inner serializers for examples: numbers for the keys of one map, strings for the keys
  of another, numbers for the values of both.
\<close>

definition Load_number :: "json \<Rightarrow> int \<Rightarrow> string \<Rightarrow> json_exception + int" where
  "Load_number x destination path =
     (case x of JNumber n \<Rightarrow> Inr n | _ \<Rightarrow> Inl (JSONSchemaException ''number'' (Some x) path))"

definition Load_string :: "json \<Rightarrow> string \<Rightarrow> string \<Rightarrow> json_exception + string" where
  "Load_string x destination path =
     (case x of JString s \<Rightarrow> Inr s | _ \<Rightarrow> Inl (JSONSchemaException ''string'' (Some x) path))"

definition number_keys :: "(int, int) inner_json" where
  "number_keys =
     \<lparr>Inner_key = JNumber, Inner_value = JNumber, Load_key = Load_number,
      Load_value = Load_number, default_key = 0, default_value = 0\<rparr>"

definition string_keys :: "(string, int) inner_json" where
  "string_keys =
     \<lparr>Inner_key = JString, Inner_value = JNumber, Load_key = Load_string,
      Load_value = Load_number, default_key = [], default_value = 0\<rparr>"

section \<open>The HTTP endpoint\<close>

lemma no_wait_select_begin_idx:
  "no_wait (snd (select_begin_idx P p t rp sz)) = no_wait rp"
  by (simp add: select_begin_idx_def Let_def)

lemma serve_subscription_request:
  assumes "is_subscription_request s r st"
  shows "ServeDataViaHTTP P subscription_id s r st =
     (if no_wait (query_params r) \<and>
         Size P (persistence (st (own_data s))) \<le> starting_index P s r st
      then (Responded (respond (Text []) OK), st)
      else serve_subscribe subscription_id (starting_index P s r st)
             (snd (select_begin_idx P (persistence (st (own_data s))) (timestamp r)
                (query_params r) (Size P (persistence (st (own_data s))))))
             (own_data s) st)"
  using assms
  by (auto simp add: ServeDataViaHTTP_def is_subscription_request_def starting_index_def Let_def
      case_prod_beta no_wait_select_begin_idx)

lemma starting_index_tail:
  assumes "tail (query_params r) \<noteq> 0"
  shows "starting_index P s r st =
     (if tail (query_params r) = - 1 then Size P (persistence (st (own_data s)))
      else max (param_i (query_params r))
             (if Size P (persistence (st (own_data s))) \<le> tail (query_params r) then 0
              else Size P (persistence (st (own_data s))) - tail (query_params r)))"
  using assms by (auto simp add: starting_index_def select_begin_idx_def Let_def)

lemma max_zero_u64: "max 0 (x :: u64) = x"
  by (simp add: max_def)

lemma starting_index_no_tail:
  assumes "tail (query_params r) = 0"
  shows "starting_index P s r st =
     (if recent (query_params r) > 0 then
        (if timestamp r - recent (query_params r) > 0 then
           min (fst (IndexRangeByTimestampRange P (persistence (st (own_data s)))
                  (timestamp r - recent (query_params r)) 0))
             (Size P (persistence (st (own_data s))))
         else 0)
      else if since (query_params r) > 0 then
        min (fst (IndexRangeByTimestampRange P (persistence (st (own_data s)))
               (since (query_params r)) 0))
          (Size P (persistence (st (own_data s))))
      else param_i (query_params r))"
  using assms by (simp add: starting_index_def select_begin_idx_def Let_def max_zero_u64)

lemmas example_defs = example_persister_def example_store_def example_stream_def no_params_def
  GET_def construct_StreamImpl_def memory_layer_def memory_IndexRangeByTimestampRange_def

lemmas serve_defs = ServeDataViaHTTP_def select_begin_idx_def serve_subscribe_def
  serve_terminate_def serve_schema_def serve_size_only_def respond_def Let_def
  is_subscription_request_def starting_index_def new_http_subscription_def
  default_SherlockSchemaFormatNotFound_def TerminateSubscription_def

text \<open>
  C3, as the claim states it, fails for \<open>tail=0\<close>: the code tests
  \<open>if (request_params.tail)\<close>, so a tail of zero is no tail at all. On the example
  stream of size 3, the request \<open>tail=0\<close> with \<open>i=0\<close> starts at index 0, where the
  claim asks for \<open>max(0, 3 - 0) = 3\<close>.
\<close>

theorem C3_tail_zero_counterexample:
  "is_subscription_request example_stream (GET (no_params\<lparr>tail := 0, param_i := 0\<rparr>)) example_store \<and>
   Size memory_layer (persistence (example_store (own_data example_stream))) = 3 \<and>
   starting_index memory_layer example_stream (GET (no_params\<lparr>tail := 0, param_i := 0\<rparr>))
     example_store = 0 \<and>
   fst (ServeDataViaHTTP memory_layer ''id'' example_stream
          (GET (no_params\<lparr>tail := 0, param_i := 0\<rparr>)) example_store) =
     Subscribed ''id'' 0 (no_params\<lparr>tail := 0, param_i := 0\<rparr>) \<and>
   max (0 :: u64) (3 - 0) = 3"
  by (simp add: serve_defs example_defs)

text \<open>
  C3, amended: for every HTTP subscription request with \<open>tail=N\<close>, \<open>N\<close> not zero, and
  current stream size \<open>size\<close>: if \<open>N\<close> is the maximum \<open>uint64_t\<close> value, the starting
  index is \<open>size\<close>; otherwise it is \<open>max(i, size - N)\<close>, where \<open>size - N\<close> is taken
  as 0 when \<open>N \<ge> size\<close>. The request is answered at once when it has \<open>nowait\<close> and
  nothing is left to serve, and subscribes at the starting index otherwise.
\<close>

theorem C3_tail_starting_index:
  assumes "is_subscription_request s r st"
    and "tail (query_params r) = N" and "N \<noteq> 0"
    and "Size P (persistence (st (own_data s))) = sz"
    and "b = (if N = - 1 then sz
              else max (param_i (query_params r)) (if sz \<le> N then 0 else sz - N))"
  shows "starting_index P s r st = b \<and>
     fst (ServeDataViaHTTP P subscription_id s r st) =
       (if no_wait (query_params r) \<and> sz \<le> b then Responded (respond (Text []) OK)
        else Subscribed subscription_id b
               (if N = - 1 then (query_params r)\<lparr>tail := sz\<rparr> else query_params r))"
proof -
  have b: "starting_index P s r st = b"
    using assms(2-5) starting_index_tail [of r P s st] by simp
  have "snd (select_begin_idx P (persistence (st (own_data s))) (timestamp r) (query_params r) sz) =
        (if N = - 1 then (query_params r)\<lparr>tail := sz\<rparr> else query_params r)"
    using assms(2,3) by (simp add: select_begin_idx_def Let_def)
  then show ?thesis
    using b assms(4) serve_subscription_request [OF assms(1), of P subscription_id]
    by (simp add: serve_subscribe_def Let_def)
qed

theorem C3_tail_starting_index_witness:
  "is_subscription_request example_stream (GET (no_params\<lparr>tail := 1\<rparr>)) example_store \<and>
   tail (query_params (GET (no_params\<lparr>tail := 1\<rparr>))) = 1 \<and>
   Size memory_layer (persistence (example_store (own_data example_stream))) = 3 \<and>
   starting_index memory_layer example_stream (GET (no_params\<lparr>tail := 1\<rparr>)) example_store = 2 \<and>
   fst (ServeDataViaHTTP memory_layer ''id'' example_stream (GET (no_params\<lparr>tail := 1\<rparr>))
          example_store) = Subscribed ''id'' 2 (no_params\<lparr>tail := 1\<rparr>)"
proof -
  let ?r = "GET (no_params\<lparr>tail := 1\<rparr>)"
  have 1: "is_subscription_request example_stream ?r example_store"
    by (simp add: is_subscription_request_def example_defs)
  have 2: "tail (query_params ?r) = 1"
    by (simp add: example_defs)
  have 3: "(1 :: u64) \<noteq> 0"
    by simp
  have 4: "Size memory_layer (persistence (example_store (own_data example_stream))) = 3"
    by (simp add: example_defs)
  have 5: "(2 :: u64) = (if (1 :: u64) = - 1 then 3
              else max (param_i (query_params ?r)) (if (3 :: u64) \<le> 1 then 0 else 3 - 1))"
    by (simp add: example_defs word_le_nat_alt)
  have 6: "query_params ?r = no_params\<lparr>tail := 1\<rparr>"
    by (simp add: GET_def)
  have 7: "\<not> no_wait (no_params\<lparr>tail := 1\<rparr>)"
    by (simp add: no_params_def)
  show ?thesis
    using C3_tail_starting_index [OF 1 2 3 4 5, of "''id''"] 1 2 4 7
    by (simp add: 6)
qed

text \<open>
  C4: the code at a failing input. On the example stream (entries at 100, 200 and 300
  microseconds) the request \<open>since=200\<close> with \<open>i=2\<close> subscribes at index 1, the index
  of the timestamp, and not at \<open>max(1, 2) = 2\<close>: \<open>begin_idx\<close> is still 0 when the
  code takes its maximum with \<open>idx_by_timestamp\<close>, since \<open>request_params.i\<close> is only
  read in the branches for \<open>tail\<close> and for no other option.
\<close>

theorem C4_since_ignores_i:
  "is_subscription_request example_stream (GET (no_params\<lparr>since := 200, param_i := 2\<rparr>))
     example_store \<and>
   fst (IndexRangeByTimestampRange memory_layer
          (persistence (example_store (own_data example_stream))) 200 0) = 1 \<and>
   param_i (query_params (GET (no_params\<lparr>since := 200, param_i := 2\<rparr>))) = 2 \<and>
   fst (ServeDataViaHTTP memory_layer ''id'' example_stream
          (GET (no_params\<lparr>since := 200, param_i := 2\<rparr>)) example_store) =
     Subscribed ''id'' 1 (no_params\<lparr>since := 200, param_i := 2\<rparr>)"
  by (simp add: serve_defs example_defs)

text \<open>
  C5: a subscription request with \<open>nowait\<close> whose starting index is at or beyond the
  current size of the stream is answered at once with 200 and an empty body, and no
  subscription is created: the store, and with it \<open>subscribers_map\<close>, is unchanged.
\<close>

theorem C5_nowait_returns_at_once:
  assumes "is_subscription_request s r st"
    and "no_wait (query_params r)"
    and "Size P (persistence (st (own_data s))) \<le> starting_index P s r st"
  shows "\<exists>resp. ServeDataViaHTTP P subscription_id s r st = (Responded resp, st) \<and>
     status_number (code resp) = 200 \<and> body resp = Text []"
  using assms serve_subscription_request [OF assms(1), of P subscription_id]
  by (simp add: respond_def)

theorem C5_nowait_returns_at_once_witness:
  "is_subscription_request example_stream (GET (no_params\<lparr>param_i := 3, no_wait := True\<rparr>))
     example_store \<and>
   no_wait (query_params (GET (no_params\<lparr>param_i := 3, no_wait := True\<rparr>))) \<and>
   Size memory_layer (persistence (example_store (own_data example_stream))) \<le>
     starting_index memory_layer example_stream (GET (no_params\<lparr>param_i := 3, no_wait := True\<rparr>))
       example_store \<and>
   (\<exists>resp. ServeDataViaHTTP memory_layer ''id'' example_stream
        (GET (no_params\<lparr>param_i := 3, no_wait := True\<rparr>)) example_store =
        (Responded resp, example_store) \<and>
      status_number (code resp) = 200 \<and> body resp = Text [])"
proof -
  have 1: "is_subscription_request example_stream (GET (no_params\<lparr>param_i := 3, no_wait := True\<rparr>))
     example_store"
    by (simp add: serve_defs example_defs)
  have 2: "no_wait (query_params (GET (no_params\<lparr>param_i := 3, no_wait := True\<rparr>)))"
    by (simp add: example_defs)
  have 3: "Size memory_layer (persistence (example_store (own_data example_stream))) \<le>
     starting_index memory_layer example_stream (GET (no_params\<lparr>param_i := 3, no_wait := True\<rparr>))
       example_store"
    by (simp add: serve_defs example_defs)
  show ?thesis
    using 1 2 3 C5_nowait_returns_at_once [OF 1 2 3, of "''id''"] by blast
qed

lemma serve_terminate_requested:
  assumes "\<not> in_destructing_mode (st (own_data s))"
    and "terminate_requested (query_params r)"
  shows "ServeDataViaHTTP P subscription_id s r st = serve_terminate (query_params r) (own_data s) st"
  using assms by (simp add: ServeDataViaHTTP_def Let_def)

lemma serve_method_not_allowed:
  assumes "\<not> in_destructing_mode (st (own_data s))"
    and "\<not> terminate_requested (query_params r)"
    and "http_method r \<noteq> ''GET''" and "http_method r \<noteq> ''HEAD''"
  shows "ServeDataViaHTTP P subscription_id s r st =
     (Responded (respond DefaultMethodNotAllowedMessage MethodNotAllowed), st)"
  using assms by (simp add: ServeDataViaHTTP_def Let_def)

lemma serve_size_only_requested:
  assumes "\<not> in_destructing_mode (st (own_data s))"
    and "\<not> terminate_requested (query_params r)"
    and "http_method r = ''GET'' \<or> http_method r = ''HEAD''"
    and "size_only (query_params r)"
  shows "ServeDataViaHTTP P subscription_id s r st =
     (Responded (serve_size_only (http_method r) (Size P (persistence (st (own_data s))))), st)"
  using assms by (auto simp add: ServeDataViaHTTP_def Let_def)

lemma serve_schema_requested:
  assumes "\<not> in_destructing_mode (st (own_data s))"
    and "\<not> terminate_requested (query_params r)"
    and "http_method r = ''GET'' \<or> http_method r = ''HEAD''"
    and "\<not> size_only (query_params r)"
    and "schema_requested (query_params r)"
  shows "ServeDataViaHTTP P subscription_id s r st =
     (Responded (serve_schema s (schema_format (query_params r))), st)"
  using assms by (auto simp add: ServeDataViaHTTP_def Let_def)

text \<open>
  C6: for every HTTP request to a stream that is not being destroyed (one that is
  being destroyed answers 503 whatever the options are), the options are dispatched in the order
  \<open>terminate\<close>, then the method check (a method other than \<open>GET\<close> and \<open>HEAD\<close>
  returns 405), then \<open>sizeonly\<close>, then \<open>schema\<close>, then the choice of the start. There
  exactly one rule gives the start, selected by the first option that is set in the
  order \<open>tail\<close> (not zero), \<open>recent\<close> (positive), \<open>since\<close> (positive), \<open>i\<close>: the
  rule of \<open>tail\<close>, which is \<open>max(i, size - tail)\<close>, or \<open>size\<close> for the maximum value,
  whatever \<open>recent\<close> and \<open>since\<close> are; the rule of \<open>recent\<close>, the index of the
  timestamp \<open>recent\<close> before the time of the request, whatever \<open>since\<close> and \<open>i\<close> are;
  the rule of \<open>since\<close>, the index of that timestamp, whatever \<open>i\<close> is; and \<open>i\<close>
  itself when none of the three is set. The request then is answered at once, when it
  has \<open>nowait\<close> and the start is not below the size, or subscribes at the start.
\<close>

theorem C6_dispatch_precedence:
  assumes "\<not> in_destructing_mode (st (own_data s))"
    and "query_params r = rp"
    and "persistence (st (own_data s)) = p"
    and "Size P p = sz"
  shows
    "(terminate_requested rp \<longrightarrow>
        fst (ServeDataViaHTTP P subscription_id s r st) =
          Responded (respond (Text [])
            (if subscribers_map (st (own_data s)) (terminate_id rp) = None then NotFound else OK))) \<and>
     (\<not> terminate_requested rp \<and> http_method r \<noteq> ''GET'' \<and> http_method r \<noteq> ''HEAD'' \<longrightarrow>
        ServeDataViaHTTP P subscription_id s r st =
          (Responded (respond DefaultMethodNotAllowedMessage MethodNotAllowed), st) \<and>
        status_number MethodNotAllowed = 405) \<and>
     (\<not> terminate_requested rp \<and> (http_method r = ''GET'' \<or> http_method r = ''HEAD'') \<and>
      size_only rp \<longrightarrow>
        ServeDataViaHTTP P subscription_id s r st =
          (Responded (serve_size_only (http_method r) sz), st)) \<and>
     (\<not> terminate_requested rp \<and> (http_method r = ''GET'' \<or> http_method r = ''HEAD'') \<and>
      \<not> size_only rp \<and> schema_requested rp \<longrightarrow>
        ServeDataViaHTTP P subscription_id s r st =
          (Responded (serve_schema s (schema_format rp)), st)) \<and>
     (\<not> terminate_requested rp \<and> (http_method r = ''GET'' \<or> http_method r = ''HEAD'') \<and>
      \<not> size_only rp \<and> \<not> schema_requested rp \<longrightarrow>
        starting_index P s r st =
          (if tail rp \<noteq> 0 then
             (if tail rp = - 1 then sz
              else max (param_i rp) (if sz \<le> tail rp then 0 else sz - tail rp))
           else if recent rp > 0 then
             (if timestamp r - recent rp > 0
              then min (fst (IndexRangeByTimestampRange P p (timestamp r - recent rp) 0)) sz
              else 0)
           else if since rp > 0 then
             min (fst (IndexRangeByTimestampRange P p (since rp) 0)) sz
           else param_i rp) \<and>
        fst (ServeDataViaHTTP P subscription_id s r st) =
          (if no_wait rp \<and> sz \<le> starting_index P s r st then Responded (respond (Text []) OK)
           else Subscribed subscription_id (starting_index P s r st)
                  (if tail rp = - 1 then rp\<lparr>tail := sz\<rparr> else rp)))"
proof (intro conjI impI)
  assume "terminate_requested rp"
  then have "ServeDataViaHTTP P subscription_id s r st = serve_terminate rp (own_data s) st"
    using assms(1,2) serve_terminate_requested [of st s r P subscription_id] by simp
  then show "fst (ServeDataViaHTTP P subscription_id s r st) =
      Responded (respond (Text [])
        (if subscribers_map (st (own_data s)) (terminate_id rp) = None then NotFound else OK))"
    by (simp add: serve_terminate_def Let_def split: option.splits)
next
  assume "\<not> terminate_requested rp \<and> http_method r \<noteq> ''GET'' \<and> http_method r \<noteq> ''HEAD''"
  then show "ServeDataViaHTTP P subscription_id s r st =
      (Responded (respond DefaultMethodNotAllowedMessage MethodNotAllowed), st)"
    using assms(1,2) serve_method_not_allowed [of st s r P subscription_id] by simp
next
  show "status_number MethodNotAllowed = 405" by simp
next
  assume "\<not> terminate_requested rp \<and> (http_method r = ''GET'' \<or> http_method r = ''HEAD'') \<and>
    size_only rp"
  then show "ServeDataViaHTTP P subscription_id s r st =
      (Responded (serve_size_only (http_method r) sz), st)"
    using assms serve_size_only_requested [of st s r P subscription_id] by simp
next
  assume "\<not> terminate_requested rp \<and> (http_method r = ''GET'' \<or> http_method r = ''HEAD'') \<and>
    \<not> size_only rp \<and> schema_requested rp"
  then show "ServeDataViaHTTP P subscription_id s r st =
      (Responded (serve_schema s (schema_format rp)), st)"
    using assms(1,2) serve_schema_requested [of st s r P subscription_id] by simp
next
  assume a: "\<not> terminate_requested rp \<and> (http_method r = ''GET'' \<or> http_method r = ''HEAD'') \<and>
    \<not> size_only rp \<and> \<not> schema_requested rp"
  show "starting_index P s r st =
          (if tail rp \<noteq> 0 then
             (if tail rp = - 1 then sz
              else max (param_i rp) (if sz \<le> tail rp then 0 else sz - tail rp))
           else if recent rp > 0 then
             (if timestamp r - recent rp > 0
              then min (fst (IndexRangeByTimestampRange P p (timestamp r - recent rp) 0)) sz
              else 0)
           else if since rp > 0 then
             min (fst (IndexRangeByTimestampRange P p (since rp) 0)) sz
           else param_i rp)"
  proof (cases "tail rp = 0")
    case True
    then show ?thesis
      using assms(2-4) starting_index_no_tail [of r P s st] by simp
  next
    case False
    then show ?thesis
      using assms(2-4) starting_index_tail [of r P s st] by simp
  qed
  have q: "is_subscription_request s r st"
    using a assms(1,2) by (simp add: is_subscription_request_def)
  have "snd (select_begin_idx P (persistence (st (own_data s))) (timestamp r) (query_params r)
          (Size P (persistence (st (own_data s))))) =
        (if tail rp = - 1 then rp\<lparr>tail := sz\<rparr> else rp)"
    using assms(2-4) by (simp add: select_begin_idx_def Let_def)
  then show "fst (ServeDataViaHTTP P subscription_id s r st) =
      (if no_wait rp \<and> sz \<le> starting_index P s r st then Responded (respond (Text []) OK)
       else Subscribed subscription_id (starting_index P s r st)
              (if tail rp = - 1 then rp\<lparr>tail := sz\<rparr> else rp))"
    using serve_subscription_request [OF q, of P subscription_id] assms(2-4)
    by (simp add: serve_subscribe_def Let_def)
qed

theorem C6_dispatch_precedence_witness:
  "fst (ServeDataViaHTTP memory_layer ''id'' example_stream
          (GET (no_params\<lparr>terminate_requested := True, terminate_id := ''x'', size_only := True,
                  schema_requested := True, tail := 2\<rparr>)) example_store) =
     Responded (respond (Text []) NotFound) \<and>
   ServeDataViaHTTP memory_layer ''id'' example_stream
     \<lparr>http_method = ''POST'', timestamp = 1000,
      query_params = no_params\<lparr>size_only := True, schema_requested := True, tail := 2\<rparr>\<rparr>
     example_store =
     (Responded (respond DefaultMethodNotAllowedMessage MethodNotAllowed), example_store) \<and>
   ServeDataViaHTTP memory_layer ''id'' example_stream
     (GET (no_params\<lparr>size_only := True, schema_requested := True, tail := 2\<rparr>)) example_store =
     (Responded (serve_size_only ''GET'' 3), example_store) \<and>
   ServeDataViaHTTP memory_layer ''id'' example_stream
     (GET (no_params\<lparr>schema_requested := True, schema_format := ''simple'', tail := 2\<rparr>))
     example_store =
     (Responded (serve_schema example_stream ''simple''), example_store) \<and>
   starting_index memory_layer example_stream
     (GET (no_params\<lparr>tail := 2, recent := 5, since := 300, param_i := 0\<rparr>)) example_store = 1 \<and>
   starting_index memory_layer example_stream
     (GET (no_params\<lparr>tail := 0, recent := 800, since := 300, param_i := 2\<rparr>)) example_store = 1 \<and>
   starting_index memory_layer example_stream
     (GET (no_params\<lparr>tail := 0, recent := 0, since := 300, param_i := 1\<rparr>)) example_store = 2 \<and>
   starting_index memory_layer example_stream
     (GET (no_params\<lparr>tail := 0, recent := 0, since := 0, param_i := 1\<rparr>)) example_store = 1 \<and>
   fst (ServeDataViaHTTP memory_layer ''id'' example_stream
          (GET (no_params\<lparr>tail := 0, recent := 0, since := 300, param_i := 1\<rparr>)) example_store) =
     Subscribed ''id'' 2 (no_params\<lparr>tail := 0, recent := 0, since := 300, param_i := 1\<rparr>)"
proof -
  have d: "\<not> in_destructing_mode (example_store (own_data example_stream))"
    by (simp add: example_defs)
  have p: "persistence (example_store (own_data example_stream)) = example_persister"
    by (simp add: example_defs)
  have sz: "Size memory_layer example_persister = 3"
    by (simp add: example_defs)
  note c = C6_dispatch_precedence [of example_store example_stream _ _ example_persister
      memory_layer 3 "''id''", OF d refl p sz]
  have 1: "fst (ServeDataViaHTTP memory_layer ''id'' example_stream
          (GET (no_params\<lparr>terminate_requested := True, terminate_id := ''x'', size_only := True,
                  schema_requested := True, tail := 2\<rparr>)) example_store) =
     Responded (respond (Text []) NotFound)"
    using c [of "GET (no_params\<lparr>terminate_requested := True, terminate_id := ''x'',
      size_only := True, schema_requested := True, tail := 2\<rparr>)", THEN conjunct1]
    by (simp add: GET_def no_params_def example_store_def)
  have 2: "ServeDataViaHTTP memory_layer ''id'' example_stream
     \<lparr>http_method = ''POST'', timestamp = 1000,
      query_params = no_params\<lparr>size_only := True, schema_requested := True, tail := 2\<rparr>\<rparr>
     example_store =
     (Responded (respond DefaultMethodNotAllowedMessage MethodNotAllowed), example_store)"
    using c [of "\<lparr>http_method = ''POST'', timestamp = 1000,
      query_params = no_params\<lparr>size_only := True, schema_requested := True, tail := 2\<rparr>\<rparr>",
      THEN conjunct2, THEN conjunct1]
    by (simp add: no_params_def)
  have 3: "ServeDataViaHTTP memory_layer ''id'' example_stream
     (GET (no_params\<lparr>size_only := True, schema_requested := True, tail := 2\<rparr>)) example_store =
     (Responded (serve_size_only ''GET'' 3), example_store)"
    using c [of "GET (no_params\<lparr>size_only := True, schema_requested := True, tail := 2\<rparr>)",
      THEN conjunct2, THEN conjunct2, THEN conjunct1]
    by (simp add: GET_def no_params_def)
  have 4: "ServeDataViaHTTP memory_layer ''id'' example_stream
     (GET (no_params\<lparr>schema_requested := True, schema_format := ''simple'', tail := 2\<rparr>))
     example_store =
     (Responded (serve_schema example_stream ''simple''), example_store)"
    using c [of "GET (no_params\<lparr>schema_requested := True, schema_format := ''simple'', tail := 2\<rparr>)",
      THEN conjunct2, THEN conjunct2, THEN conjunct2, THEN conjunct1]
    by (simp add: GET_def no_params_def)
  have q: "\<not> terminate_requested (query_params (GET (no_params\<lparr>tail := a, recent := b,
        since := c, param_i := e\<rparr>))) \<and>
      (http_method (GET (no_params\<lparr>tail := a, recent := b, since := c, param_i := e\<rparr>)) = ''GET'' \<or>
       http_method (GET (no_params\<lparr>tail := a, recent := b, since := c, param_i := e\<rparr>)) = ''HEAD'') \<and>
      \<not> size_only (query_params (GET (no_params\<lparr>tail := a, recent := b,
        since := c, param_i := e\<rparr>))) \<and>
      \<not> schema_requested (query_params (GET (no_params\<lparr>tail := a, recent := b,
        since := c, param_i := e\<rparr>)))" for a b c e
    by (simp add: GET_def no_params_def)
  note c5 = c [THEN conjunct2, THEN conjunct2, THEN conjunct2, THEN conjunct2, THEN mp]
  have 5: "starting_index memory_layer example_stream
     (GET (no_params\<lparr>tail := 2, recent := 5, since := 300, param_i := 0\<rparr>)) example_store = 1"
    using c5 [of "GET (no_params\<lparr>tail := 2, recent := 5, since := 300, param_i := 0\<rparr>)",
      OF q, THEN conjunct1]
    by (simp add: GET_def no_params_def word_le_nat_alt)
  have 6: "starting_index memory_layer example_stream
     (GET (no_params\<lparr>tail := 0, recent := 800, since := 300, param_i := 2\<rparr>)) example_store = 1"
    using c5 [of "GET (no_params\<lparr>tail := 0, recent := 800, since := 300, param_i := 2\<rparr>)",
      OF q, THEN conjunct1]
    by (simp add: GET_def no_params_def example_persister_def memory_layer_def
        memory_IndexRangeByTimestampRange_def)
  have 7: "starting_index memory_layer example_stream
     (GET (no_params\<lparr>tail := 0, recent := 0, since := 300, param_i := 1\<rparr>)) example_store = 2"
    using c5 [of "GET (no_params\<lparr>tail := 0, recent := 0, since := 300, param_i := 1\<rparr>)",
      OF q, THEN conjunct1]
    by (simp add: GET_def no_params_def example_persister_def memory_layer_def
        memory_IndexRangeByTimestampRange_def)
  have 8: "starting_index memory_layer example_stream
     (GET (no_params\<lparr>tail := 0, recent := 0, since := 0, param_i := 1\<rparr>)) example_store = 1"
    using c5 [of "GET (no_params\<lparr>tail := 0, recent := 0, since := 0, param_i := 1\<rparr>)",
      OF q, THEN conjunct1]
    by (simp add: GET_def no_params_def)
  have 9: "fst (ServeDataViaHTTP memory_layer ''id'' example_stream
          (GET (no_params\<lparr>tail := 0, recent := 0, since := 300, param_i := 1\<rparr>)) example_store) =
     Subscribed ''id'' 2 (no_params\<lparr>tail := 0, recent := 0, since := 300, param_i := 1\<rparr>)"
    using c5 [of "GET (no_params\<lparr>tail := 0, recent := 0, since := 300, param_i := 1\<rparr>)",
      OF q, THEN conjunct2] 7
    by (simp add: GET_def no_params_def word_le_nat_alt)
  show ?thesis
    using 1 2 3 4 5 6 7 8 9 by (intro conjI)
qed

lemma serve_terminate_found:
  assumes "\<not> in_destructing_mode (st (own_data s))"
    and "terminate_requested (query_params r)"
    and "subscribers_map (st (own_data s)) (terminate_id (query_params r)) = Some scope"
  shows "ServeDataViaHTTP P subscription_id s r st =
     (Responded (respond (Text []) OK),
      st(own_data s := (st (own_data s))\<lparr>subscribers_map :=
        (subscribers_map (st (own_data s)))(terminate_id (query_params r) \<mapsto>
           TerminateSubscription scope)\<rparr>))"
  using assms(3) serve_terminate_requested [of st s r P subscription_id, OF assms(1,2)]
  by (simp add: serve_terminate_def Let_def)

lemma serve_terminate_missing:
  assumes "\<not> in_destructing_mode (st (own_data s))"
    and "terminate_requested (query_params r)"
    and "subscribers_map (st (own_data s)) (terminate_id (query_params r)) = None"
  shows "ServeDataViaHTTP P subscription_id s r st = (Responded (respond (Text []) NotFound), st)"
  using assms(3) serve_terminate_requested [of st s r P subscription_id, OF assms(1,2)]
  by (simp add: serve_terminate_def Let_def)

lemma TerminateSubscription_effect:
  "termination_requested (TerminateSubscription t) \<and>
   (\<not> termination_requested t \<and> \<not> subscriber_thread_done t \<longrightarrow>
      terminate_signal (TerminateSubscription t)) \<and>
   (terminate_signal t \<longrightarrow> terminate_signal (TerminateSubscription t)) \<and>
   thread_begin_idx (TerminateSubscription t) = thread_begin_idx t \<and>
   endpoint_params (TerminateSubscription t) = endpoint_params t \<and>
   subscriber_thread_done (TerminateSubscription t) = subscriber_thread_done t"
  by (simp add: TerminateSubscription_def)

text \<open>
  C7: a request with \<open>terminate=<id>\<close> to a stream that is not being destroyed. If
  the subscriptions map holds a subscription under the identifier, its termination is
  requested and the response is 200 with an empty body: \<open>termination_requested_\<close> is
  set, and the termination signal on which the subscriber thread acts is raised,
  unless termination was requested before or the thread is done already; a raised
  signal stays raised, the rest of the subscription and every other part of the store
  are as before. If the map holds none, the response is 404 and nothing changes.
\<close>

theorem C7_terminate_by_id:
  assumes "\<not> in_destructing_mode (st (own_data s))"
    and "terminate_requested (query_params r)"
    and "terminate_id (query_params r) = tid"
  shows
    "(\<forall>scope. subscribers_map (st (own_data s)) tid = Some scope \<longrightarrow>
        (\<exists>resp scope'.
           ServeDataViaHTTP P subscription_id s r st =
             (Responded resp,
              st(own_data s := (st (own_data s))\<lparr>subscribers_map :=
                (subscribers_map (st (own_data s)))(tid \<mapsto> scope')\<rparr>)) \<and>
           status_number (code resp) = 200 \<and> body resp = Text [] \<and>
           termination_requested scope' \<and>
           (\<not> termination_requested scope \<and> \<not> subscriber_thread_done scope \<longrightarrow>
              terminate_signal scope') \<and>
           (terminate_signal scope \<longrightarrow> terminate_signal scope') \<and>
           thread_begin_idx scope' = thread_begin_idx scope \<and>
           endpoint_params scope' = endpoint_params scope \<and>
           subscriber_thread_done scope' = subscriber_thread_done scope)) \<and>
     (subscribers_map (st (own_data s)) tid = None \<longrightarrow>
        (\<exists>resp. ServeDataViaHTTP P subscription_id s r st = (Responded resp, st) \<and>
           status_number (code resp) = 404 \<and> body resp = Text []))"
proof (intro conjI allI impI)
  fix scope
  assume "subscribers_map (st (own_data s)) tid = Some scope"
  then have "ServeDataViaHTTP P subscription_id s r st =
     (Responded (respond (Text []) OK),
      st(own_data s := (st (own_data s))\<lparr>subscribers_map :=
        (subscribers_map (st (own_data s)))(tid \<mapsto> TerminateSubscription scope)\<rparr>))"
    using serve_terminate_found [of st s r scope P subscription_id, OF assms(1,2)] assms(3) by simp
  moreover have "status_number (code (respond (Text []) OK)) = 200"
    and "body (respond (Text []) OK) = Text []"
    by (simp_all add: respond_def)
  ultimately show "\<exists>resp scope'.
      ServeDataViaHTTP P subscription_id s r st =
        (Responded resp,
         st(own_data s := (st (own_data s))\<lparr>subscribers_map :=
           (subscribers_map (st (own_data s)))(tid \<mapsto> scope')\<rparr>)) \<and>
      status_number (code resp) = 200 \<and> body resp = Text [] \<and>
      termination_requested scope' \<and>
      (\<not> termination_requested scope \<and> \<not> subscriber_thread_done scope \<longrightarrow>
         terminate_signal scope') \<and>
      (terminate_signal scope \<longrightarrow> terminate_signal scope') \<and>
      thread_begin_idx scope' = thread_begin_idx scope \<and>
      endpoint_params scope' = endpoint_params scope \<and>
      subscriber_thread_done scope' = subscriber_thread_done scope"
    using TerminateSubscription_effect [of scope] by blast
next
  assume "subscribers_map (st (own_data s)) tid = None"
  then have "ServeDataViaHTTP P subscription_id s r st =
      (Responded (respond (Text []) NotFound), st)"
    using serve_terminate_missing [of st s r P subscription_id, OF assms(1,2)] assms(3) by simp
  moreover have "status_number (code (respond (Text []) NotFound)) = 404"
    and "body (respond (Text []) NotFound) = Text []"
    by (simp_all add: respond_def)
  ultimately show "\<exists>resp. ServeDataViaHTTP P subscription_id s r st = (Responded resp, st) \<and>
      status_number (code resp) = 404 \<and> body resp = Text []"
    by blast
qed

theorem C7_terminate_by_id_witness:
  "(\<exists>resp scope'. ServeDataViaHTTP memory_layer ''id'' example_stream
        (GET (no_params\<lparr>terminate_requested := True, terminate_id := ''X''\<rparr>))
        (snd (ServeDataViaHTTP memory_layer ''X'' example_stream (GET no_params) example_store)) =
        (Responded resp,
         example_store(0 := (example_store 0)\<lparr>subscribers_map := [''X'' \<mapsto> scope']\<rparr>)) \<and>
      status_number (code resp) = 200 \<and> body resp = Text [] \<and>
      termination_requested scope' \<and> terminate_signal scope' \<and>
      thread_begin_idx scope' = 0 \<and> \<not> subscriber_thread_done scope') \<and>
   (\<exists>resp. ServeDataViaHTTP memory_layer ''id'' example_stream
        (GET (no_params\<lparr>terminate_requested := True, terminate_id := ''X''\<rparr>)) example_store =
        (Responded resp, example_store) \<and>
      status_number (code resp) = 404 \<and> body resp = Text [])"
proof -
  let ?r = "GET (no_params\<lparr>terminate_requested := True, terminate_id := ''X''\<rparr>)"
  let ?st = "snd (ServeDataViaHTTP memory_layer ''X'' example_stream (GET no_params) example_store)"
  let ?new = "new_http_subscription 0 no_params"
  have st: "?st = example_store(0 := (example_store 0)\<lparr>subscribers_map := [''X'' \<mapsto> ?new]\<rparr>)"
    by (simp add: ServeDataViaHTTP_def select_begin_idx_def serve_subscribe_def Let_def example_defs)
  have o: "own_data example_stream = 0"
    by (simp add: example_defs)
  have d1: "\<not> in_destructing_mode (?st (own_data example_stream))"
    unfolding st o by (simp add: example_store_def)
  have d2: "\<not> in_destructing_mode (example_store (own_data example_stream))"
    by (simp add: example_store_def)
  have t: "terminate_requested (query_params ?r)"
    by (simp add: GET_def)
  have i: "terminate_id (query_params ?r) = ''X''"
    by (simp add: GET_def)
  have m1: "subscribers_map (?st (own_data example_stream)) ''X'' = Some ?new"
    unfolding st o by simp
  have m2: "subscribers_map (example_store (own_data example_stream)) ''X'' = None"
    by (simp add: example_store_def)
  have n: "\<not> termination_requested ?new \<and> \<not> subscriber_thread_done ?new"
    and n0: "thread_begin_idx ?new = 0" and n1: "\<not> subscriber_thread_done ?new"
    by (simp_all add: new_http_subscription_def)
  have u: "?st(own_data example_stream := (?st (own_data example_stream))\<lparr>subscribers_map :=
        (subscribers_map (?st (own_data example_stream)))(''X'' \<mapsto> x)\<rparr>) =
      example_store(0 := (example_store 0)\<lparr>subscribers_map := [''X'' \<mapsto> x]\<rparr>)" for x
    unfolding st o by simp
  obtain resp scope' where a:
    "ServeDataViaHTTP memory_layer ''id'' example_stream ?r ?st =
       (Responded resp,
        ?st(own_data example_stream := (?st (own_data example_stream))\<lparr>subscribers_map :=
          (subscribers_map (?st (own_data example_stream)))(''X'' \<mapsto> scope')\<rparr>))"
    "status_number (code resp) = 200" "body resp = Text []"
    "termination_requested scope'"
    "\<not> termination_requested ?new \<and> \<not> subscriber_thread_done ?new \<longrightarrow> terminate_signal scope'"
    "thread_begin_idx scope' = thread_begin_idx ?new"
    "subscriber_thread_done scope' = subscriber_thread_done ?new"
    using C7_terminate_by_id [of ?st example_stream ?r "''X''" memory_layer "''id''",
        OF d1 t i, THEN conjunct1, THEN spec, THEN mp, OF m1] by blast
  have a': "\<exists>resp scope'. ServeDataViaHTTP memory_layer ''id'' example_stream ?r ?st =
        (Responded resp,
         example_store(0 := (example_store 0)\<lparr>subscribers_map := [''X'' \<mapsto> scope']\<rparr>)) \<and>
      status_number (code resp) = 200 \<and> body resp = Text [] \<and>
      termination_requested scope' \<and> terminate_signal scope' \<and>
      thread_begin_idx scope' = 0 \<and> \<not> subscriber_thread_done scope'"
    using a(1) [unfolded u] a(2-4) a(5) [THEN mp, OF n] a(6) [unfolded n0] a(7) n1 by blast
  have b: "\<exists>resp. ServeDataViaHTTP memory_layer ''id'' example_stream ?r example_store =
        (Responded resp, example_store) \<and> status_number (code resp) = 404 \<and> body resp = Text []"
    using C7_terminate_by_id [of example_store example_stream ?r "''X''" memory_layer "''id''",
        OF d2 t i, THEN conjunct2, THEN mp, OF m2] .
  show ?thesis
    using a' b by (rule conjI)
qed

text \<open>
  C8: a request for the schema that reaches the schema branch (the stream is not
  being destroyed, no termination is asked for, the HTTP method is \<open>GET\<close> or \<open>HEAD\<close>,
  \<open>sizeonly\<close> is not set). With no format the answer is the full schema descriptor;
  with \<open>format=simple\<close> the triple of type identifier, entry name and namespace name;
  with another format that is a language of the schema, the schema text in that
  language; with any other format 404, carrying the error message and the format that
  was asked for. The formats are tested in this order, so the empty format and
  \<open>simple\<close> are never looked up among the languages.
\<close>

theorem C8_schema_formats:
  assumes "\<not> in_destructing_mode (st (own_data s))"
    and "\<not> terminate_requested (query_params r)"
    and "http_method r = ''GET'' \<or> http_method r = ''HEAD''"
    and "\<not> size_only (query_params r)"
    and "schema_requested (query_params r)"
    and "schema_format (query_params r) = fmt"
  shows
    "(fmt = [] \<longrightarrow>
        ServeDataViaHTTP P subscription_id s r st =
          (Responded (respond (SchemaAsHTTPResponse (schema_as_object s)) OK), st)) \<and>
     (fmt = ''simple'' \<longrightarrow>
        ServeDataViaHTTP P subscription_id s r st =
          (Responded (respond
             (SubscribableSherlockSchema (type_id (schema_as_object s))
                (entry_name (schema_namespace_name s)) (namespace_name (schema_namespace_name s)))
             OK), st)) \<and>
     (\<forall>schema_text. fmt \<noteq> [] \<and> fmt \<noteq> ''simple'' \<and>
        language (schema_as_object s) fmt = Some schema_text \<longrightarrow>
        ServeDataViaHTTP P subscription_id s r st = (Responded (respond (Text schema_text) OK), st)) \<and>
     (fmt \<noteq> [] \<and> fmt \<noteq> ''simple'' \<and> language (schema_as_object s) fmt = None \<longrightarrow>
        ServeDataViaHTTP P subscription_id s r st =
          (Responded (respond
             (FormatNotFound \<lparr>error = ''Unsupported schema format requested.'',
                unsupported_format_requested = Some fmt\<rparr>) NotFound), st) \<and>
        status_number NotFound = 404)"
  using assms serve_schema_requested [of st s r P subscription_id]
  by (simp add: serve_schema_def default_SherlockSchemaFormatNotFound_def)

theorem C8_schema_formats_witness:
  "ServeDataViaHTTP memory_layer ''id'' example_stream
     (GET (no_params\<lparr>schema_requested := True, schema_format := []\<rparr>)) example_store =
     (Responded (respond (SchemaAsHTTPResponse (schema_as_object example_stream)) OK),
      example_store) \<and>
   ServeDataViaHTTP memory_layer ''id'' example_stream
     (GET (no_params\<lparr>schema_requested := True, schema_format := ''simple''\<rparr>)) example_store =
     (Responded (respond (SubscribableSherlockSchema 9000 ''TopLevelTransaction'' ''SherlockSchema'')
        OK), example_store) \<and>
   ServeDataViaHTTP memory_layer ''id'' example_stream
     (GET (no_params\<lparr>schema_requested := True, schema_format := ''cpp''\<rparr>)) example_store =
     (Responded (respond (Text ''struct Entry;'') OK), example_store) \<and>
   ServeDataViaHTTP memory_layer ''id'' example_stream
     (GET (no_params\<lparr>schema_requested := True, schema_format := ''bogus''\<rparr>)) example_store =
     (Responded (respond
        (FormatNotFound \<lparr>error = ''Unsupported schema format requested.'',
           unsupported_format_requested = Some ''bogus''\<rparr>) NotFound), example_store)"
proof -
  have d: "\<not> in_destructing_mode (example_store (own_data example_stream))"
    by (simp add: example_store_def)
  have q: "\<not> terminate_requested (query_params (GET (no_params\<lparr>schema_requested := True,
      schema_format := f\<rparr>)))"
    "http_method (GET (no_params\<lparr>schema_requested := True, schema_format := f\<rparr>)) = ''GET'' \<or>
     http_method (GET (no_params\<lparr>schema_requested := True, schema_format := f\<rparr>)) = ''HEAD''"
    "\<not> size_only (query_params (GET (no_params\<lparr>schema_requested := True, schema_format := f\<rparr>)))"
    "schema_requested (query_params (GET (no_params\<lparr>schema_requested := True,
      schema_format := f\<rparr>)))"
    "schema_format (query_params (GET (no_params\<lparr>schema_requested := True,
      schema_format := f\<rparr>))) = f" for f
    by (simp_all add: GET_def no_params_def)
  note c = C8_schema_formats [of example_store example_stream _ _ memory_layer "''id''",
      OF d q]
  have 1: "ServeDataViaHTTP memory_layer ''id'' example_stream
     (GET (no_params\<lparr>schema_requested := True, schema_format := []\<rparr>)) example_store =
     (Responded (respond (SchemaAsHTTPResponse (schema_as_object example_stream)) OK),
      example_store)"
    using c [of "[]", THEN conjunct1] by simp
  have 2: "ServeDataViaHTTP memory_layer ''id'' example_stream
     (GET (no_params\<lparr>schema_requested := True, schema_format := ''simple''\<rparr>)) example_store =
     (Responded (respond (SubscribableSherlockSchema 9000 ''TopLevelTransaction'' ''SherlockSchema'')
        OK), example_store)"
    using c [of "''simple''", THEN conjunct2, THEN conjunct1]
    by (simp add: example_stream_def construct_StreamImpl_def)
  have 3: "ServeDataViaHTTP memory_layer ''id'' example_stream
     (GET (no_params\<lparr>schema_requested := True, schema_format := ''cpp''\<rparr>)) example_store =
     (Responded (respond (Text ''struct Entry;'') OK), example_store)"
    using c [of "''cpp''", THEN conjunct2, THEN conjunct2, THEN conjunct1]
    by (simp add: example_stream_def construct_StreamImpl_def)
  have 4: "ServeDataViaHTTP memory_layer ''id'' example_stream
     (GET (no_params\<lparr>schema_requested := True, schema_format := ''bogus''\<rparr>)) example_store =
     (Responded (respond
        (FormatNotFound \<lparr>error = ''Unsupported schema format requested.'',
           unsupported_format_requested = Some ''bogus''\<rparr>) NotFound), example_store)"
    using c [of "''bogus''", THEN conjunct2, THEN conjunct2, THEN conjunct2]
    by (simp add: example_stream_def construct_StreamImpl_def)
  show ?thesis
    using 1 2 3 4 by (intro conjI)
qed

section \<open>The publisher of a stream\<close>

lemma MovePublisherTo_held:
  assumes "publisher s = Some pub"
  shows "MovePublisherTo s = (Inr (), s\<lparr>publisher := None, authority := External\<rparr>, Some pub)"
  using assms by (simp add: MovePublisherTo_def)

lemma PublishImpl_released:
  assumes "publisher s = None"
  shows "PublishImpl P s entry t st = (Inl PublishToStreamWithReleasedPublisherException, st)"
    and "UpdateHeadImpl P s t st = (Inl PublishToStreamWithReleasedPublisherException, st)"
  using assms by (simp_all add: PublishImpl_def UpdateHeadImpl_def)

lemma AcquirePublisher_released:
  assumes "publisher s = None"
  shows "AcquirePublisher h s = (Inr (), s\<lparr>publisher := h, authority := Own\<rparr>)"
  using assms by (simp add: AcquirePublisher_def)

lemma StreamPublisher_PublishImpl_accepts:
  assumes "\<not> in_destructing_mode (st a)"
    and "Publish P (persistence (st a)) entry t = (Inr result, p')"
  shows "StreamPublisher_PublishImpl P (StreamPublisher a) entry t st =
     (Inr result, st(a := (st a)\<lparr>persistence := p', notifier := Suc (notifier (st a))\<rparr>))"
  using assms by (simp add: StreamPublisher_PublishImpl_def Let_def)

lemma StreamPublisher_UpdateHeadImpl_accepts:
  assumes "\<not> in_destructing_mode (st a)"
    and "UpdateHead P (persistence (st a)) t = (Inr u, p')"
  shows "StreamPublisher_UpdateHeadImpl P (StreamPublisher a) t st =
     (Inr u, st(a := (st a)\<lparr>persistence := p', notifier := Suc (notifier (st a))\<rparr>))"
  using assms by (simp add: StreamPublisher_UpdateHeadImpl_def Let_def)

text \<open>
  C2: let a stream hold its publisher, and let \<open>MovePublisherTo\<close> move it out. Then
  the authority is \<open>External\<close>, and every \<open>Publish\<close> and \<open>UpdateHead\<close> of the stream
  object fails with \<open>PublishToStreamWithReleasedPublisherException\<close> and leaves the
  store, and with it the persisted log, as it was. After \<open>AcquirePublisher\<close> has
  brought the publisher back, the authority is \<open>Own\<close> and the stream object publishes
  through the publisher again: the call succeeds whenever the stream data is not being
  destroyed and the persister accepts the entry or the head.
\<close>

theorem C2_released_publisher:
  assumes "publisher s = Some (StreamPublisher a)"
    and "MovePublisherTo s = (moved, s1, handle)"
    and "AcquirePublisher handle s1 = (acquired, s2)"
  shows
    "moved = Inr () \<and> handle = Some (StreamPublisher a) \<and> DataAuthority s1 = External \<and>
     PublishImpl P s1 entry t st = (Inl PublishToStreamWithReleasedPublisherException, st) \<and>
     UpdateHeadImpl P s1 t st = (Inl PublishToStreamWithReleasedPublisherException, st) \<and>
     acquired = Inr () \<and> DataAuthority s2 = Own \<and>
     PublishImpl P s2 entry t st = StreamPublisher_PublishImpl P (StreamPublisher a) entry t st \<and>
     UpdateHeadImpl P s2 t st = StreamPublisher_UpdateHeadImpl P (StreamPublisher a) t st \<and>
     (\<forall>result p'. \<not> in_destructing_mode (st a) \<and>
         Publish P (persistence (st a)) entry t = (Inr result, p') \<longrightarrow>
         PublishImpl P s2 entry t st =
           (Inr result, st(a := (st a)\<lparr>persistence := p', notifier := Suc (notifier (st a))\<rparr>))) \<and>
     (\<forall>p'. \<not> in_destructing_mode (st a) \<and>
         UpdateHead P (persistence (st a)) t = (Inr (), p') \<longrightarrow>
         UpdateHeadImpl P s2 t st =
           (Inr (), st(a := (st a)\<lparr>persistence := p', notifier := Suc (notifier (st a))\<rparr>)))"
proof -
  have m: "moved = Inr ()" "handle = Some (StreamPublisher a)"
    "s1 = s\<lparr>publisher := None, authority := External\<rparr>"
    using assms(2) MovePublisherTo_held [OF assms(1)] by simp_all
  have r: "publisher s1 = None"
    by (simp add: m(3))
  have q: "acquired = Inr ()" "s2 = s1\<lparr>publisher := Some (StreamPublisher a), authority := Own\<rparr>"
    using assms(3) AcquirePublisher_released [OF r, of handle] by (simp_all add: m(2))
  have p2: "publisher s2 = Some (StreamPublisher a)"
    by (simp add: q(2))
  have e1: "PublishImpl P s2 entry t st =
      StreamPublisher_PublishImpl P (StreamPublisher a) entry t st"
    by (simp add: PublishImpl_def p2)
  have e2: "UpdateHeadImpl P s2 t st = StreamPublisher_UpdateHeadImpl P (StreamPublisher a) t st"
    by (simp add: UpdateHeadImpl_def p2)
  have a1: "DataAuthority s1 = External"
    by (simp add: DataAuthority_def m(3))
  have a2: "DataAuthority s2 = Own"
    by (simp add: DataAuthority_def q(2))
  show ?thesis
    using m(1,2) q(1) a1 a2 e1 e2 PublishImpl_released [OF r, of P]
      StreamPublisher_PublishImpl_accepts [of st a P entry t]
      StreamPublisher_UpdateHeadImpl_accepts [of st a P t]
    by simp
qed

theorem C2_released_publisher_witness:
  "publisher example_stream = Some (StreamPublisher 0) \<and>
   MovePublisherTo example_stream =
     (Inr (), example_stream\<lparr>publisher := None, authority := External\<rparr>, Some (StreamPublisher 0)) \<and>
   AcquirePublisher (Some (StreamPublisher 0))
     (example_stream\<lparr>publisher := None, authority := External\<rparr>) = (Inr (), example_stream) \<and>
   PublishImpl memory_layer (example_stream\<lparr>publisher := None, authority := External\<rparr>) ''D'' None
     example_store = (Inl PublishToStreamWithReleasedPublisherException, example_store) \<and>
   UpdateHeadImpl memory_layer (example_stream\<lparr>publisher := None, authority := External\<rparr>)
     (Some 2000) example_store = (Inl PublishToStreamWithReleasedPublisherException, example_store) \<and>
   fst (PublishImpl memory_layer example_stream ''D'' None example_store) =
     Inr \<lparr>index = 3, us = 1000\<rparr> \<and>
   fst (UpdateHeadImpl memory_layer example_stream (Some 2000) example_store) = Inr ()"
proof -
  let ?s1 = "example_stream\<lparr>publisher := None, authority := External\<rparr>"
  have 1: "publisher example_stream = Some (StreamPublisher 0)"
    by (simp add: example_stream_def construct_StreamImpl_def)
  have 2: "MovePublisherTo example_stream = (Inr (), ?s1, Some (StreamPublisher 0))"
    by (simp add: MovePublisherTo_def 1)
  have 3: "AcquirePublisher (Some (StreamPublisher 0)) ?s1 = (Inr (), example_stream)"
    by (simp add: AcquirePublisher_def example_stream_def construct_StreamImpl_def)
  have 4: "\<not> in_destructing_mode (example_store 0)"
    by (simp add: example_store_def)
  have 5: "Publish memory_layer (persistence (example_store 0)) ''D'' None =
      (Inr \<lparr>index = 3, us = 1000\<rparr>,
       example_persister\<lparr>log_entries := log_entries example_persister @ [(1000, ''D'')],
         memory_head := 1000\<rparr>)"
    by (simp add: memory_layer_def memory_Publish_def memory_append_def last_us_def
        example_store_def example_persister_def)
  note c = C2_released_publisher [OF 1 2 3, of memory_layer "''D''" None example_store]
  note c' = C2_released_publisher [OF 1 2 3, of memory_layer "''D''" "Some 2000" example_store]
  have 6: "PublishImpl memory_layer ?s1 ''D'' None example_store =
      (Inl PublishToStreamWithReleasedPublisherException, example_store)"
    using c by blast
  have 7: "UpdateHeadImpl memory_layer ?s1 (Some 2000) example_store =
      (Inl PublishToStreamWithReleasedPublisherException, example_store)"
    using c' by blast
  have "PublishImpl memory_layer example_stream ''D'' None example_store =
      (Inr \<lparr>index = 3, us = 1000\<rparr>,
       example_store(0 := (example_store 0)\<lparr>persistence :=
         example_persister\<lparr>log_entries := log_entries example_persister @ [(1000, ''D'')],
           memory_head := 1000\<rparr>,
         notifier := Suc (notifier (example_store 0))\<rparr>))"
    using c 4 5 by blast
  then have 8: "fst (PublishImpl memory_layer example_stream ''D'' None example_store) =
      Inr \<lparr>index = 3, us = 1000\<rparr>"
    by simp
  have 9: "UpdateHead memory_layer (persistence (example_store 0)) (Some 2000) =
      (Inr (), example_persister\<lparr>memory_head := 2000\<rparr>)"
    by (simp add: memory_layer_def memory_UpdateHead_def last_us_def example_store_def
        example_persister_def)
  have "UpdateHeadImpl memory_layer example_stream (Some 2000) example_store =
      (Inr (),
       example_store(0 := (example_store 0)\<lparr>persistence :=
         example_persister\<lparr>memory_head := 2000\<rparr>,
         notifier := Suc (notifier (example_store 0))\<rparr>))"
    using c' 4 9 by blast
  then have 10: "fst (UpdateHeadImpl memory_layer example_stream (Some 2000) example_store) = Inr ()"
    by simp
  show ?thesis
    using 1 2 3 6 7 8 10 by (intro conjI)
qed

section \<open>The subscriber thread: heads\<close>

lemma calls_ok_append:
  "calls_ok b bound (xs @ ys) = (calls_ok b bound xs \<and> calls_ok b (bound_after bound xs) ys)"
proof (induction xs arbitrary: bound)
  case Nil
  show ?case by simp
next
  case (Cons c cs)
  then show ?case by (cases c) auto
qed

lemma bound_after_append:
  "bound_after bound (xs @ ys) = bound_after (bound_after bound xs) ys"
proof (induction xs arbitrary: bound)
  case Nil
  show ?case by simp
next
  case (Cons c cs)
  then show ?case by (cases c) auto
qed

lemma calls_ok_mono:
  "bound \<le> bound' \<Longrightarrow> calls_ok b bound' cs \<Longrightarrow> calls_ok b bound cs"
proof (induction cs arbitrary: bound bound')
  case Nil
  show ?case by simp
next
  case (Cons c cs)
  show ?case
  proof (cases c)
    case TerminateCall
    then show ?thesis
      using Cons.IH [OF Cons.prems(1)] Cons.prems(2) by simp
  next
    case (EntryCall e idx_ts l)
    have m: "max bound (us idx_ts) \<le> max bound' (us idx_ts)"
      using Cons.prems(1) by (rule max.mono) simp
    have "calls_ok b (max bound' (us idx_ts)) cs"
      using Cons.prems(2) unfolding EntryCall calls_ok.simps .
    then have "calls_ok b (max bound (us idx_ts)) cs"
      by (rule Cons.IH [OF m])
    then show ?thesis
      unfolding EntryCall calls_ok.simps .
  next
    case (NoMoreCall x)
    then show ?thesis
      using Cons.IH [OF Cons.prems(1)] Cons.prems(2) by simp
  next
    case (HeadCall h sz old)
    then show ?thesis
      using Cons.prems by simp
  qed
qed

lemma bound_after_ge: "calls_ok b bound cs \<Longrightarrow> bound \<le> bound_after bound cs"
proof (induction cs arbitrary: bound)
  case Nil
  show ?case by simp
next
  case (Cons c cs)
  show ?case
  proof (cases c)
    case TerminateCall
    then show ?thesis using Cons by simp
  next
    case (EntryCall e idx_ts l)
    have "calls_ok b (max bound (us idx_ts)) cs"
      using Cons.prems unfolding EntryCall calls_ok.simps .
    then have "max bound (us idx_ts) \<le> bound_after (max bound (us idx_ts)) cs"
      by (rule Cons.IH)
    then have "bound \<le> bound_after (max bound (us idx_ts)) cs"
      by (rule order_trans [OF max.cobounded1])
    then show ?thesis
      unfolding EntryCall bound_after.simps .
  next
    case (NoMoreCall x)
    then show ?thesis using Cons by simp
  next
    case (HeadCall h sz old)
    have "bound < h" and "calls_ok b h cs"
      using Cons.prems unfolding HeadCall calls_ok.simps by simp_all
    then show ?thesis
      using Cons.IH [of h] unfolding HeadCall bound_after.simps by simp
  qed
qed

lemma bound_after_entry:
  "calls_ok b bound cs \<Longrightarrow> EntryCall e idx_ts l \<in> set cs \<Longrightarrow> us idx_ts \<le> bound_after bound cs"
proof (induction cs arbitrary: bound)
  case Nil
  then show ?case by simp
next
  case (Cons c cs)
  show ?case
  proof (cases "c = EntryCall e idx_ts l")
    case True
    have "calls_ok b (max bound (us idx_ts)) cs"
      using Cons.prems(1) unfolding True calls_ok.simps .
    then have "max bound (us idx_ts) \<le> bound_after (max bound (us idx_ts)) cs"
      by (rule bound_after_ge)
    then have "us idx_ts \<le> bound_after (max bound (us idx_ts)) cs"
      by (rule order_trans [OF max.cobounded2])
    then show ?thesis
      unfolding True bound_after.simps .
  next
    case False
    then have m: "EntryCall e idx_ts l \<in> set cs"
      using Cons.prems(2) by simp
    show ?thesis
    proof (cases c)
      case TerminateCall
      then show ?thesis using Cons.IH [OF _ m] Cons.prems(1) by simp
    next
      case (EntryCall e' idx_ts' l')
      have "calls_ok b (max bound (us idx_ts')) cs"
        using Cons.prems(1) unfolding EntryCall calls_ok.simps .
      then have "us idx_ts \<le> bound_after (max bound (us idx_ts')) cs"
        using m by (rule Cons.IH)
      then show ?thesis
        unfolding EntryCall bound_after.simps .
    next
      case (NoMoreCall x)
      then show ?thesis using Cons.IH [OF _ m] Cons.prems(1) by simp
    next
      case (HeadCall h sz old)
      then show ?thesis using Cons.IH [OF _ m, of h] Cons.prems(1) by simp
    qed
  qed
qed

lemma calls_ok_heads:
  "calls_ok b bound cs \<Longrightarrow>
   sorted_wrt (<) (heads_delivered cs) \<and> (\<forall>h \<in> set (heads_delivered cs). bound < h)"
proof (induction cs arbitrary: bound)
  case Nil
  show ?case by simp
next
  case (Cons c cs)
  show ?case
  proof (cases c)
    case TerminateCall
    then show ?thesis using Cons by simp
  next
    case (EntryCall e idx_ts l)
    have "calls_ok b (max bound (us idx_ts)) cs"
      using Cons.prems unfolding EntryCall calls_ok.simps .
    from Cons.IH [OF this]
    have "sorted_wrt (<) (heads_delivered cs)"
      and "\<forall>h \<in> set (heads_delivered cs). max bound (us idx_ts) < h"
      by simp_all
    then show ?thesis
      unfolding EntryCall by simp
  next
    case (NoMoreCall x)
    then show ?thesis using Cons by simp
  next
    case (HeadCall h sz old)
    have "bound < h" and "calls_ok b h cs"
      using Cons.prems unfolding HeadCall calls_ok.simps by simp_all
    then show ?thesis
      using Cons.IH [of h] unfolding HeadCall by fastforce
  qed
qed

lemma calls_ok_head_call:
  "calls_ok b bound cs \<Longrightarrow> HeadCall h sz old \<in> set cs \<Longrightarrow> b < sz \<and> old < h"
proof (induction cs arbitrary: bound)
  case Nil
  then show ?case by simp
next
  case (Cons c cs)
  show ?case
  proof (cases c)
    case TerminateCall
    then show ?thesis using Cons by simp
  next
    case (EntryCall e idx_ts l)
    then show ?thesis
      using Cons.IH [of "max bound (us idx_ts)"] Cons.prems by simp
  next
    case (NoMoreCall x)
    then show ?thesis using Cons by simp
  next
    case (HeadCall h' sz' old')
    then show ?thesis
      using Cons.IH [of h'] Cons.prems by auto
  qed
qed

lemma entries_upto_calls_ok:
  "entries_upto u cs \<Longrightarrow> calls_ok b bound cs \<and> bound_after bound cs \<le> max bound u"
proof (induction cs arbitrary: bound)
  case Nil
  show ?case by simp
next
  case (Cons c cs)
  show ?case
  proof (cases c)
    case TerminateCall
    then show ?thesis using Cons by simp
  next
    case (EntryCall e idx_ts l)
    have le: "us idx_ts \<le> u" and rest: "entries_upto u cs"
      using Cons.prems unfolding EntryCall by simp_all
    have "max (max bound (us idx_ts)) u = max bound u"
      using le by simp
    then show ?thesis
      using Cons.IH [OF rest, of "max bound (us idx_ts)"] unfolding EntryCall by simp
  next
    case (NoMoreCall x)
    then show ?thesis using Cons by simp
  next
    case (HeadCall h sz old)
    then show ?thesis using Cons.prems by simp
  qed
qed

lemma entries_upto_append:
  "entries_upto u (xs @ ys) = (entries_upto u xs \<and> entries_upto u ys)"
proof (induction xs)
  case Nil
  show ?case by simp
next
  case (Cons c cs)
  then show ?case by (cases c) auto
qed

lemma check_terminate_calls:
  assumes "check_terminate F sig v = (returns, v', c)"
  shows "entries_upto u c \<and> var_head v' = var_head v \<and> var_index v' = var_index v \<and>
    var_size v' = var_size v"
  using assms by (auto simp add: check_terminate_def split: if_splits prod.splits)

lemma PassEntry_calls:
  assumes "PassEntryToSubscriberIfTypeMatches F entry idx_ts l s = (response, s', c)"
    and "us idx_ts \<le> u"
  shows "entries_upto u c"
  using assms
  by (auto simp add: PassEntryToSubscriberIfTypeMatches_def split: if_splits prod.splits)

lemma pass_entries_calls:
  assumes "pass_entries F P ob es v = (returns, v', c)"
    and "\<forall>e \<in> set es. us (fst e) \<le> u"
  shows "entries_upto u c \<and> var_head v' = var_head v \<and> var_index v' = var_index v \<and>
    var_size v' = var_size v"
  using assms
proof (induction es arbitrary: v returns v' c)
  case Nil
  then show ?case by simp
next
  case (Cons e es)
  obtain r1 v1 c1 where ct: "check_terminate F (signal_at ob (index (fst e))) v = (r1, v1, c1)"
    by (cases "check_terminate F (signal_at ob (index (fst e))) v") auto
  note k1 = check_terminate_calls [OF ct, of u]
  show ?case
  proof (cases r1)
    case True
    then show ?thesis
      using Cons.prems(1) ct k1 by simp
  next
    case False
    obtain r2 s2 c2 where pe: "PassEntryToSubscriberIfTypeMatches F (snd e) (fst e)
        (LastPublishedIndexAndTimestamp P (persistence_at ob (index (fst e)))) (subscriber v1) =
        (r2, s2, c2)"
      by (cases "PassEntryToSubscriberIfTypeMatches F (snd e) (fst e)
        (LastPublishedIndexAndTimestamp P (persistence_at ob (index (fst e)))) (subscriber v1)") auto
    have k2: "entries_upto u c2"
      using PassEntry_calls [OF pe, of u] Cons.prems(2) by simp
    show ?thesis
    proof (cases "r2 = Done")
      case True
      then show ?thesis
        using Cons.prems(1) ct False pe k1 k2 by (auto simp add: entries_upto_append)
    next
      case nd: False
      obtain r3 v3 c3 where rec: "pass_entries F P ob es (v1\<lparr>subscriber := s2\<rparr>) = (r3, v3, c3)"
        by (cases "pass_entries F P ob es (v1\<lparr>subscriber := s2\<rparr>)") auto
      have k3: "entries_upto u c3 \<and> var_head v3 = var_head (v1\<lparr>subscriber := s2\<rparr>) \<and>
          var_index v3 = var_index (v1\<lparr>subscriber := s2\<rparr>) \<and>
          var_size v3 = var_size (v1\<lparr>subscriber := s2\<rparr>)"
        using Cons.IH [OF rec] Cons.prems(2) by simp
      show ?thesis
        using Cons.prems(1) ct False pe nd rec k1 k2 k3 by (auto simp add: entries_upto_append)
    qed
  qed
qed

lemma entries_upto_bound:
  assumes "entries_upto u c" and "bound \<le> w" and "u \<le> w"
  shows "calls_ok b bound c" and "bound_after bound c \<le> w"
proof -
  show "calls_ok b bound c"
    using entries_upto_calls_ok [OF assms(1)] by simp
  have "bound_after bound c \<le> max bound u"
    using entries_upto_calls_ok [OF assms(1), of b bound] by simp
  then show "bound_after bound c \<le> w"
    using assms(2,3) by simp
qed

lemma deliver_head_calls:
  assumes "deliver_head F b head_idx v = (res, c)"
    and "bound < head head_idx \<or> bound \<le> var_head v"
    and "bound \<le> head head_idx"
  shows "calls_ok b bound c \<and> (\<forall>v'. res \<noteq> Blocked v') \<and>
    (\<forall>v'. res = Next v' \<longrightarrow> bound_after bound c \<le> var_head v')"
proof (cases "var_size v > b \<and> head head_idx > var_head v")
  case True
  obtain response s' where sh: "subscriber_head F (head head_idx) (subscriber v) = (response, s')"
    by (cases "subscriber_head F (head head_idx) (subscriber v)") auto
  have c: "c = [HeadCall (head head_idx) (var_size v) (var_head v)]"
    and r: "res = (if response = Done then Exit Returned
                   else Next (v\<lparr>var_head := head head_idx, subscriber := s'\<rparr>))"
    using assms(1) True sh by (simp_all add: deliver_head_def)
  have "bound < head head_idx"
    using assms(2) True by auto
  then have "calls_ok b bound c"
    using True by (simp add: c)
  moreover have "bound_after bound c = head head_idx"
    by (simp add: c)
  ultimately show ?thesis
    by (simp add: r)
next
  case False
  then have "c = []" and "res = Next (v\<lparr>var_head := head head_idx\<rparr>)"
    using assms(1) by (auto simp add: deliver_head_def)
  then show ?thesis
    using assms(3) by simp
qed

lemma loop_pass_returns:
  assumes "check_terminate F (signal ob) v = (True, v0, c0)"
  shows "loop_pass F P b ob v = (Exit Returned, c0)"
  by (simp add: loop_pass_def assms)

lemma loop_pass_goes_on:
  assumes "check_terminate F (signal ob) v = (False, v0, c0)"
    and "head_idx = HeadAndLastPublishedIndexAndTimestamp P (snapshot ob)"
    and "v1 = v0\<lparr>var_size := (case idxts head_idx of Some l \<Rightarrow> index l + 1 | None \<Rightarrow> 0)\<rparr>"
  shows "loop_pass F P b ob v =
    (if head head_idx > var_head v1 then
       (if var_size v1 > var_index v1 then
          (case pass_entries F P ob (Iterate P (snapshot ob) (var_index v1) (var_size v1)) v1 of
             (returns2, v2, c2) \<Rightarrow>
               if returns2 then (Exit Returned, c0 @ c2)
               else
                 (case idxts head_idx of
                    None \<Rightarrow> (Exit NoValueException, c0 @ c2)
                  | Some l \<Rightarrow>
                      (case deliver_head F b head_idx
                              (v2\<lparr>var_index := var_size v1, var_head := us l\<rparr>) of
                         (result, c3) \<Rightarrow> (result, c0 @ c2 @ c3))))
        else
          (case deliver_head F b head_idx v1 of
             (result, c3) \<Rightarrow> (result, c0 @ c3)))
     else (Blocked v1, c0))"
  unfolding assms(2,3) by (simp add: loop_pass_def assms(1) Let_def)

lemma loop_pass_calls:
  assumes lp: "loop_pass F P b ob v = (res, c)"
    and pc: "persister_consistent P (snapshot ob)"
    and bd: "bound \<le> var_head v"
  shows "calls_ok b bound c \<and>
    (\<forall>v'. res = Next v' \<or> res = Blocked v' \<longrightarrow> bound_after bound c \<le> var_head v')"
proof -
  obtain r0 v0 c0 where ct: "check_terminate F (signal ob) v = (r0, v0, c0)"
    by (cases "check_terminate F (signal ob) v") auto
  have k0: "entries_upto (var_head v) c0" "var_head v0 = var_head v"
    using check_terminate_calls [OF ct, of "var_head v"] by simp_all
  have ok0: "calls_ok b bound c0" and b0: "bound_after bound c0 \<le> var_head v"
    using entries_upto_bound [OF k0(1) bd order_refl] by simp_all
  show ?thesis
  proof (cases r0)
    case True
    then have "res = Exit Returned" "c = c0"
      using lp ct loop_pass_returns [of F ob v v0 c0 P b] by simp_all
    then show ?thesis
      using ok0 by simp
  next
    case nr: False
    define head_idx where "head_idx = HeadAndLastPublishedIndexAndTimestamp P (snapshot ob)"
    define v1 where
      "v1 = v0\<lparr>var_size := (case idxts head_idx of Some l \<Rightarrow> index l + 1 | None \<Rightarrow> 0)\<rparr>"
    have ct': "check_terminate F (signal ob) v = (False, v0, c0)"
      using ct nr by simp
    note eq = loop_pass_goes_on [OF ct' head_idx_def v1_def, of b]
    have h1: "var_head v1 = var_head v"
      by (simp add: v1_def k0(2))
    show ?thesis
    proof (cases "head head_idx > var_head v1")
      case False
      then have "res = Blocked v1" "c = c0"
        using lp eq by simp_all
      then show ?thesis
        using ok0 b0 h1 by simp
    next
      case hd: True
      then have bh: "bound < head head_idx"
        using bd h1 by simp
      show ?thesis
      proof (cases "var_size v1 > var_index v1")
        case False
        obtain r3 c3 where dh: "deliver_head F b head_idx v1 = (r3, c3)"
          by (cases "deliver_head F b head_idx v1") auto
        have rc: "res = r3" "c = c0 @ c3"
          using lp eq hd False dh by simp_all
        have b0': "bound_after bound c0 \<le> var_head v1"
          using b0 h1 by simp
        have b0h: "bound_after bound c0 \<le> head head_idx"
          using b0' hd by simp
        note k3 = deliver_head_calls [OF dh disjI2 [OF b0'] b0h]
        show ?thesis
          using ok0 k3 by (simp add: rc calls_ok_append bound_after_append)
      next
        case True
        obtain r2 v2 c2 where pe:
          "pass_entries F P ob (Iterate P (snapshot ob) (var_index v1) (var_size v1)) v1 = (r2, v2, c2)"
          by (cases "pass_entries F P ob (Iterate P (snapshot ob) (var_index v1) (var_size v1)) v1")
            auto
        show ?thesis
        proof (cases "idxts head_idx")
          case None
          have "var_size v1 = 0"
            by (simp add: v1_def None)
          then show ?thesis
            using True by simp
        next
          case (Some l)
          have sz: "var_size v1 = index l + 1"
            by (simp add: v1_def Some)
          have cons: "us l \<le> head head_idx"
            "\<forall>e \<in> set (Iterate P (snapshot ob) (var_index v1) (var_size v1)). us (fst e) \<le> us l"
            using pc Some unfolding persister_consistent_def head_idx_def [symmetric] sz
            by simp_all
          have k2: "entries_upto (us l) c2"
            using pass_entries_calls [OF pe cons(2)] by simp
          have up: "entries_upto (us l) (c0 @ c2)"
            using k2 check_terminate_calls [OF ct, of "us l"] by (simp add: entries_upto_append)
          have mx: "max bound (us l) \<le> head head_idx"
            using bh cons(1) by simp
          have ok2: "calls_ok b bound (c0 @ c2)"
            using entries_upto_calls_ok [OF up] by simp
          have b2: "bound_after bound (c0 @ c2) \<le> max bound (us l)"
            using entries_upto_calls_ok [OF up, of b bound] by simp
          show ?thesis
          proof (cases r2)
            case r2: True
            have "res = Exit Returned" "c = c0 @ c2"
              using lp eq hd True pe r2 by simp_all
            then show ?thesis
              using ok2 by simp
          next
            case r2: False
            define v2' where "v2' = v2\<lparr>var_index := var_size v1, var_head := us l\<rparr>"
            obtain r3 c3 where dh: "deliver_head F b head_idx v2' = (r3, c3)"
              by (cases "deliver_head F b head_idx v2'") auto
            have rc: "res = r3" "c = (c0 @ c2) @ c3"
              using lp eq hd True pe r2 Some dh [unfolded v2'_def] by simp_all
            have vh: "var_head v2' = us l"
              by (simp add: v2'_def)
            have d1: "bound_after bound (c0 @ c2) < head head_idx \<or>
                bound_after bound (c0 @ c2) \<le> var_head v2'"
              using b2 bh unfolding vh by (cases "bound \<le> us l") simp_all
            have d2: "bound_after bound (c0 @ c2) \<le> head head_idx"
              by (rule order_trans [OF b2 mx])
            note k3 = deliver_head_calls [OF dh d1 d2]
            have "calls_ok b bound ((c0 @ c2) @ c3)"
              using ok2 k3 by (simp add: calls_ok_append bound_after_append)
            moreover have "\<forall>v'. res = Next v' \<or> res = Blocked v' \<longrightarrow>
                bound_after bound ((c0 @ c2) @ c3) \<le> var_head v'"
              using k3 by (simp add: bound_after_append rc)
            ultimately show ?thesis
              by (simp add: rc)
          qed
        qed
      qed
    qed
  qed
qed

lemma ThreadImpl_from_calls:
  assumes "\<forall>ob \<in> set obs. persister_consistent P (snapshot ob)"
    and "bound \<le> var_head v"
  shows "calls_ok b bound (snd (ThreadImpl_from F P b obs v))"
  using assms
proof (induction F P b obs v arbitrary: bound rule: ThreadImpl_from.induct)
  case (1 F P b v)
  show ?case by simp
next
  case (2 F P b ob obs v)
  obtain res c where lp: "loop_pass F P b ob v = (res, c)"
    by (cases "loop_pass F P b ob v") auto
  have pc: "persister_consistent P (snapshot ob)"
    using "2.prems"(1) by simp
  note k = loop_pass_calls [OF lp pc "2.prems"(2)]
  show ?case
  proof (cases res)
    case (Exit status)
    then show ?thesis
      using lp k by simp
  next
    case (Next v')
    have "calls_ok b (bound_after bound c) (snd (ThreadImpl_from F P b obs v'))"
      using "2.IH"(1) [OF lp [symmetric] Next] "2.prems"(1) k Next by simp
    then show ?thesis
      using lp k Next by (simp add: calls_ok_append case_prod_unfold)
  next
    case (Blocked v')
    let ?obs = "dropWhile (\<lambda>ob'. \<not> wait_predicate P b v' ob') obs"
    have "\<forall>ob \<in> set ?obs. persister_consistent P (snapshot ob)"
      using "2.prems"(1) by (auto dest: set_dropWhileD)
    then have "calls_ok b (bound_after bound c) (snd (ThreadImpl_from F P b ?obs v'))"
      using "2.IH"(2) [OF lp [symmetric] Blocked] k Blocked by simp
    then show ?thesis
      using lp k Blocked by (simp add: calls_ok_append case_prod_unfold)
  qed
qed

lemma memory_layer_consistent:
  assumes "sorted (map fst (log_entries m))"
    and "log_entries m \<noteq> [] \<longrightarrow> fst (last (log_entries m)) \<le> memory_head m"
  shows "persister_consistent memory_layer m"
proof (cases "log_entries m")
  case Nil
  then show ?thesis
    by (simp add: persister_consistent_def memory_layer_def memory_last_def)
next
  case (Cons x xs)
  let ?n = "length (log_entries m)"
  have ne: "log_entries m \<noteq> []"
    using Cons by simp
  have l: "memory_last m = Some (memory_idxts m (?n - 1))"
    using Cons by (simp add: memory_last_def)
  have u: "us (memory_idxts m (?n - 1)) = fst (last (log_entries m))"
    using ne by (simp add: memory_idxts_def last_conv_nth)
  have "us (fst e) \<le> fst (last (log_entries m))"
    if mem: "e \<in> set (memory_Iterate m lo hi)" for e lo hi
  proof -
    obtain k where k: "k < ?n" and e: "e = (memory_idxts m k, snd (log_entries m ! k))"
      using mem by (auto simp add: memory_Iterate_def)
    have "fst (log_entries m ! k) \<le> fst (log_entries m ! (?n - 1))"
      using sorted_nth_mono [OF assms(1), of k "?n - 1"] k by simp
    then show ?thesis
      using ne by (simp add: e memory_idxts_def last_conv_nth)
  qed
  then show ?thesis
    using assms(2) ne u
    by (simp add: persister_consistent_def memory_layer_def l)
qed

lemmas thread_defs = ThreadImpl_def initial_thread_vars_def loop_pass_def check_terminate_def
  Let_def deliver_head_def PassEntryToSubscriberIfTypeMatches_def wait_predicate_def

lemmas thread_example_defs = example_observations_def observe_def counting_subscriber_def
  memory_layer_def memory_last_def memory_idxts_def memory_Iterate_def

lemma example_run:
  "ThreadImpl counting_subscriber memory_layer 0 0 example_observations =
     (Running,
      [EntryCall ''A'' \<lparr>index = 0, us = 100\<rparr> \<lparr>index = 0, us = 100\<rparr>,
       HeadCall 150 1 100,
       EntryCall ''B'' \<lparr>index = 1, us = 200\<rparr> \<lparr>index = 1, us = 200\<rparr>,
       HeadCall 250 2 200])"
  by (simp add: thread_defs thread_example_defs)

text \<open>
  C1: take any execution of the subscriber loop, over observations in each of which
  the persister keeps its contract (the head is not before the last entry, whose
  timestamp no earlier entry exceeds). Then the heads delivered alone to the
  subscriber are strictly increasing; each of them is at least the timestamp of every
  entry delivered before it, the last one among them; and each is delivered only when
  \<open>size > begin_idx\<close> and the head of the snapshot exceeds the head the thread has
  last observed, its local variable \<open>head\<close>.
\<close>

theorem C1_heads_delivered:
  assumes "\<forall>ob \<in> set obs. persister_consistent P (snapshot ob)"
    and "ThreadImpl F P begin_idx s obs = (status, calls)"
  shows
    "sorted_wrt (<) (heads_delivered calls) \<and>
     (\<forall>before h sz old after e idx_ts l.
        calls = before @ HeadCall h sz old # after \<and> EntryCall e idx_ts l \<in> set before \<longrightarrow>
        us idx_ts \<le> h) \<and>
     (\<forall>h sz old. HeadCall h sz old \<in> set calls \<longrightarrow> begin_idx < sz \<and> old < h)"
proof -
  have "calls_ok begin_idx (- 1)
      (snd (ThreadImpl_from F P begin_idx obs (initial_thread_vars begin_idx s)))"
    using assms(1) by (rule ThreadImpl_from_calls) (simp add: initial_thread_vars_def)
  then have ok: "calls_ok begin_idx (- 1) calls"
    using assms(2) by (simp add: ThreadImpl_def)
  have a: "sorted_wrt (<) (heads_delivered calls)"
    using calls_ok_heads [OF ok] by simp
  have b: "us idx_ts \<le> h"
    if eq: "calls = before @ HeadCall h sz old # after"
      and mem: "EntryCall e idx_ts l \<in> set before"
    for before h sz old after e idx_ts l
  proof -
    have 1: "calls_ok begin_idx (- 1) before"
      and 2: "calls_ok begin_idx (bound_after (- 1) before) (HeadCall h sz old # after)"
      using ok unfolding eq calls_ok_append by simp_all
    have "us idx_ts \<le> bound_after (- 1) before"
      using 1 mem by (rule bound_after_entry)
    moreover have "bound_after (- 1) before < h"
      using 2 by simp
    ultimately show ?thesis
      by simp
  qed
  have c: "begin_idx < sz \<and> old < h" if "HeadCall h sz old \<in> set calls" for h sz old
    using ok that by (rule calls_ok_head_call)
  show ?thesis
    using a b c by blast
qed

theorem C1_heads_delivered_witness:
  "list_all (\<lambda>ob. persister_consistent memory_layer (snapshot ob)) example_observations \<and>
   ThreadImpl counting_subscriber memory_layer 0 0 example_observations =
     (Running,
      [EntryCall ''A'' \<lparr>index = 0, us = 100\<rparr> \<lparr>index = 0, us = 100\<rparr>,
       HeadCall 150 1 100,
       EntryCall ''B'' \<lparr>index = 1, us = 200\<rparr> \<lparr>index = 1, us = 200\<rparr>,
       HeadCall 250 2 200]) \<and>
   sorted_wrt (<) (heads_delivered
     [EntryCall ''A'' \<lparr>index = 0, us = 100\<rparr> \<lparr>index = 0, us = 100\<rparr>,
      HeadCall 150 1 100,
      EntryCall ''B'' \<lparr>index = 1, us = 200\<rparr> \<lparr>index = 1, us = 200\<rparr>,
      HeadCall 250 2 (200 :: int)]) \<and>
   us \<lparr>index = 1, us = 200\<rparr> \<le> (250 :: int) \<and> (0 :: u64) < 2 \<and> (200 :: int) < 250"
proof -
  let ?calls = "[EntryCall ''A'' \<lparr>index = 0, us = 100\<rparr> \<lparr>index = 0, us = 100\<rparr>,
      HeadCall 150 1 100,
      EntryCall ''B'' \<lparr>index = 1, us = 200\<rparr> \<lparr>index = 1, us = 200\<rparr>,
      HeadCall 250 2 200]"
  have 1: "\<forall>ob \<in> set example_observations. persister_consistent memory_layer (snapshot ob)"
    by (simp add: example_observations_def observe_def memory_layer_consistent)
  have 2: "ThreadImpl counting_subscriber memory_layer 0 0 example_observations = (Running, ?calls)"
    by (rule example_run)
  note c = C1_heads_delivered [OF 1 2]
  have 3: "sorted_wrt (<) (heads_delivered ?calls)"
    using c by (rule conjunct1)
  have "?calls = [EntryCall ''A'' \<lparr>index = 0, us = 100\<rparr> \<lparr>index = 0, us = 100\<rparr>,
      HeadCall 150 1 100,
      EntryCall ''B'' \<lparr>index = 1, us = 200\<rparr> \<lparr>index = 1, us = 200\<rparr>] @ HeadCall 250 2 200 # [] \<and>
    EntryCall ''B'' \<lparr>index = 1, us = 200\<rparr> \<lparr>index = 1, us = 200\<rparr> \<in>
      set [EntryCall ''A'' \<lparr>index = 0, us = 100\<rparr> \<lparr>index = 0, us = 100\<rparr>,
        HeadCall 150 1 100,
        EntryCall ''B'' \<lparr>index = 1, us = 200\<rparr> \<lparr>index = 1, us = 200\<rparr>]"
    by simp
  then have 4: "us \<lparr>index = 1, us = 200\<rparr> \<le> (250 :: int)"
    using c [THEN conjunct2, THEN conjunct1] by blast
  have "HeadCall 250 2 200 \<in> set ?calls"
    by simp
  then have 5: "(0 :: u64) < 2 \<and> (200 :: int) < 250"
    using c [THEN conjunct2, THEN conjunct2] by blast
  have 6: "list_all (\<lambda>ob. persister_consistent memory_layer (snapshot ob)) example_observations"
    using 1 by (simp add: list_all_iff)
  show ?thesis
    using 6 2 3 4 5 by (intro conjI) simp_all
qed

section \<open>JSON for maps: the round trip\<close>

lemma emplace_last:
  assumes "\<forall>x \<in> set m. fst x < k"
  shows "emplace k v m = m @ [(k, v)]"
  using assms by (induction m) auto

lemma load_entries_serialized:
  assumes "\<And>k old. Load_key C (Inner_key C k) old path = Inr k"
    and "\<And>v old. Load_value C (Inner_value C v) old path = Inr v"
    and "sorted_wrt (<) (map fst (acc @ m))"
  shows "load_entries C source path
      (map (\<lambda>element. JArray [Inner_key C (fst element), Inner_value C (snd element)]) m) acc =
    Inr (acc @ m)"
  using assms(3)
proof (induction m arbitrary: acc)
  case Nil
  show ?case by simp
next
  case (Cons x m)
  have "\<forall>y \<in> set acc. fst y < fst x"
    using Cons.prems by (auto simp add: sorted_wrt_append)
  then have e: "emplace (fst x) (snd x) acc = acc @ [x]"
    by (simp add: emplace_last)
  have "sorted_wrt (<) (map fst ((acc @ [x]) @ m))"
    using Cons.prems by simp
  from Cons.IH [OF this] show ?case
    by (simp add: assms(1,2) e)
qed

lemma load_members_serialized:
  assumes "\<And>k old. Load_key C (JString k) old path = Inr k"
    and "\<And>v old. Load_value C (Inner_value C v) old path = Inr v"
    and "sorted_wrt (<) (map fst (acc @ m))"
  shows "load_members C path
      (map (\<lambda>element. (fst element, Inner_value C (snd element))) m) k0 v0 acc =
    Inr (acc @ m)"
  using assms(3)
proof (induction m arbitrary: acc k0 v0)
  case Nil
  show ?case by simp
next
  case (Cons x m)
  have "\<forall>y \<in> set acc. fst y < fst x"
    using Cons.prems by (auto simp add: sorted_wrt_append)
  then have e: "emplace (fst x) (snd x) acc = acc @ [x]"
    by (simp add: emplace_last)
  have "sorted_wrt (<) (map fst ((acc @ [x]) @ m))"
    using Cons.prems by simp
  from Cons.IH [OF this] show ?case
    by (simp add: assms(1,2) e)
qed

lemma load_entries_malformed:
  assumes "\<exists>x \<in> set entries. \<not> is_pair_array x"
  shows "\<exists>expected src p. load_entries C source path entries acc =
    Inl (JSONSchemaException expected src p)"
  using assms
proof (induction entries arbitrary: acc)
  case Nil
  then show ?case by simp
next
  case (Cons x xs)
  show ?case
  proof (cases "is_pair_array x")
    case False
    then show ?thesis
      by (cases x) (auto simp add: is_pair_array_def)
  next
    case True
    then obtain kv where x: "x = JArray kv" and l: "length kv = 2"
      by (cases x) (auto simp add: is_pair_array_def)
    have rest: "\<exists>y \<in> set xs. \<not> is_pair_array y"
      using Cons.prems True by auto
    show ?thesis
    proof (cases "Load_key C (kv ! 0) (default_key C) path")
      case (Inl e)
      then show ?thesis
        using x l by (cases e) simp
    next
      case k: (Inr k)
      show ?thesis
      proof (cases "Load_value C (kv ! 1) (default_value C) path")
        case (Inl e)
        then show ?thesis
          using x l k by (cases e) simp
      next
        case (Inr v)
        then show ?thesis
          using x l k Cons.IH [OF rest, of "emplace k v acc"] by simp
      qed
    qed
  qed
qed

text \<open>
  C10: let the key and value types round-trip through their own serializers and
  loaders. Then a \<open>std::map\<close> with \<open>std::string\<close> keys is serialized as an object
  whose member names are the keys of the map, in order, and loading that object yields
  the map; a map with keys of another type is serialized as an array with one entry
  for each element, each an array of two values, the key and the value, and loading
  that array yields the map; and loading such a map from an array with an entry that
  is not an array of exactly two elements throws \<open>JSONSchemaException\<close>.
\<close>

theorem C10_map_json_round_trip:
  fixes S :: "(string, 'v) inner_json" and C :: "('k :: linorder, 'w) inner_json"
  assumes "\<And>k old. Load_key S (JString k) old path = Inr k"
    and "\<And>v old. Load_value S (Inner_value S v) old path = Inr v"
    and "\<And>k old. Load_key C (Inner_key C k) old path = Inr k"
    and "\<And>v old. Load_value C (Inner_value C v) old path = Inr v"
    and "std_map_invariant ms" and "std_map_invariant m"
  shows
    "(\<exists>members. DoSerialize_string_map S ms = JObject members \<and> map fst members = map fst ms) \<and>
     Load_string_map S patch (Some (DoSerialize_string_map S ms)) d path = Inr ms \<and>
     (\<exists>entries. DoSerialize_map C m = JArray entries \<and>
        entries = map (\<lambda>element. JArray [Inner_key C (fst element), Inner_value C (snd element)]) m) \<and>
     Load_map C patch (Some (DoSerialize_map C m)) d' path = Inr m \<and>
     ((\<exists>x \<in> set entries. \<not> is_pair_array x) \<longrightarrow>
        (\<exists>expected src p. Load_map C patch (Some (JArray entries)) d' path =
           Inl (JSONSchemaException expected src p)))"
proof (intro conjI impI)
  show "\<exists>members. DoSerialize_string_map S ms = JObject members \<and> map fst members = map fst ms"
    by (simp add: DoSerialize_string_map_def comp_def)
  show "Load_string_map S patch (Some (DoSerialize_string_map S ms)) d path = Inr ms"
    using load_members_serialized [of S path "[]" ms, OF assms(1,2)] assms(5)
    by (simp add: Load_string_map_def DoSerialize_string_map_def std_map_invariant_def)
  show "\<exists>entries. DoSerialize_map C m = JArray entries \<and>
      entries = map (\<lambda>element. JArray [Inner_key C (fst element), Inner_value C (snd element)]) m"
    by (simp add: DoSerialize_map_def)
  show "Load_map C patch (Some (DoSerialize_map C m)) d' path = Inr m"
    using load_entries_serialized [of C path "[]" m, OF assms(3,4)] assms(6)
    by (simp add: Load_map_def DoSerialize_map_def std_map_invariant_def)
next
  assume "\<exists>x \<in> set entries. \<not> is_pair_array x"
  from load_entries_malformed [OF this, of C "Some (JArray entries)" path "[]"]
  show "\<exists>expected src p. Load_map C patch (Some (JArray entries)) d' path =
      Inl (JSONSchemaException expected src p)"
    by (simp add: Load_map_def)
qed

theorem C10_map_json_round_trip_witness:
  "std_map_invariant [(''a'', 1 :: int), (''b'', 2)] \<and>
   std_map_invariant [(1 :: int, 10 :: int), (2, 20)] \<and>
   DoSerialize_string_map string_keys [(''a'', 1), (''b'', 2)] =
     JObject [(''a'', JNumber 1), (''b'', JNumber 2)] \<and>
   Load_string_map string_keys False (Some (JObject [(''a'', JNumber 1), (''b'', JNumber 2)]))
     [] ''root'' = Inr [(''a'', 1), (''b'', 2)] \<and>
   DoSerialize_map number_keys [(1, 10), (2, 20)] =
     JArray [JArray [JNumber 1, JNumber 10], JArray [JNumber 2, JNumber 20]] \<and>
   Load_map number_keys False
     (Some (JArray [JArray [JNumber 1, JNumber 10], JArray [JNumber 2, JNumber 20]]))
     [] ''root'' = Inr [(1, 10), (2, 20)] \<and>
   (\<exists>expected src p.
      Load_map number_keys False (Some (JArray [JArray [JNumber 1, JNumber 10], JArray [JNumber 2]]))
        [] ''root'' = Inl (JSONSchemaException expected src p))"
proof -
  have 1: "Load_key string_keys (JString k) old ''root'' = Inr k" for k old
    by (simp add: string_keys_def Load_string_def)
  have 2: "Load_value string_keys (Inner_value string_keys v) old ''root'' = Inr v" for v old
    by (simp add: string_keys_def Load_number_def)
  have 3: "Load_key number_keys (Inner_key number_keys k) old ''root'' = Inr k" for k old
    by (simp add: number_keys_def Load_number_def)
  have 4: "Load_value number_keys (Inner_value number_keys v) old ''root'' = Inr v" for v old
    by (simp add: number_keys_def Load_number_def)
  have 5: "std_map_invariant [(''a'', 1 :: int), (''b'', 2)]"
    by (simp add: std_map_invariant_def)
  have 6: "std_map_invariant [(1 :: int, 10 :: int), (2, 20)]"
    by (simp add: std_map_invariant_def)
  have 7: "DoSerialize_string_map string_keys [(''a'', 1), (''b'', 2)] =
     JObject [(''a'', JNumber 1), (''b'', JNumber 2)]"
    by (simp add: DoSerialize_string_map_def string_keys_def)
  have 8: "DoSerialize_map number_keys [(1, 10), (2, 20)] =
     JArray [JArray [JNumber 1, JNumber 10], JArray [JNumber 2, JNumber 20]]"
    by (simp add: DoSerialize_map_def number_keys_def)
  have 9: "\<exists>x \<in> set [JArray [JNumber 1, JNumber 10], JArray [JNumber 2]]. \<not> is_pair_array x"
    by (simp add: is_pair_array_def)
  note c = C10_map_json_round_trip [of string_keys "''root''" number_keys
      "[(''a'', 1), (''b'', 2)]" "[(1, 10), (2, 20)]" False "[]" "[]"
      "[JArray [JNumber 1, JNumber 10], JArray [JNumber 2]]", OF 1 2 3 4 5 6]
  have a: "Load_string_map string_keys False (Some (JObject [(''a'', JNumber 1), (''b'', JNumber 2)]))
     [] ''root'' = Inr [(''a'', 1), (''b'', 2)]"
    using c [THEN conjunct2, THEN conjunct1] by (simp add: 7)
  have b: "Load_map number_keys False
     (Some (JArray [JArray [JNumber 1, JNumber 10], JArray [JNumber 2, JNumber 20]]))
     [] ''root'' = Inr [(1, 10), (2, 20)]"
    using c [THEN conjunct2, THEN conjunct2, THEN conjunct2, THEN conjunct1] by (simp add: 8)
  have d: "\<exists>expected src p.
      Load_map number_keys False (Some (JArray [JArray [JNumber 1, JNumber 10], JArray [JNumber 2]]))
        [] ''root'' = Inl (JSONSchemaException expected src p)"
    using c [THEN conjunct2, THEN conjunct2, THEN conjunct2, THEN conjunct2, THEN mp, OF 9] .
  show ?thesis
    using 5 6 7 a 8 b d by (intro conjI)
qed
section \<open>Line grouping: chunked feeding\<close>

lemma Feed_cstr_lines:
  "NUL \<notin> set s \<Longrightarrow>
   f_calls (Feed_cstr s g) @ lines_from (residual (Feed_cstr s g)) t =
   f_calls g @ lines_from (residual g) (s @ t)"
  by (induction s arbitrary: g) auto

lemma foldl_Feed_lines:
  "NUL \<notin> set (concat chunks) \<Longrightarrow>
   destroy_group_by_lines (foldl (\<lambda>g s. Feed s g) g chunks) =
   f_calls g @ lines_from (residual g) (concat chunks)"
proof (induction chunks arbitrary: g)
  case Nil
  show ?case by (simp add: destroy_group_by_lines_def)
next
  case (Cons c cs)
  have "destroy_group_by_lines (foldl (\<lambda>g s. Feed s g) (Feed c g) cs) =
        f_calls (Feed c g) @ lines_from (residual (Feed c g)) (concat cs)"
    using Cons by simp
  also have "\<dots> = f_calls g @ lines_from (residual g) (c @ concat cs)"
    using Cons.prems by (simp add: Feed_def Feed_cstr_lines)
  finally show ?case by simp
qed

text \<open>
  C9, as the claim states it, fails: a \<open>std::string\<close> may hold a zero byte, and
  \<open>Feed\<close> reads its argument as a C string. Fed in one call, the four bytes
  \<open>a\<close>, zero, \<open>b\<close>, newline are cut at the zero byte and the destructor forwards
  \<open>a\<close>; fed as the two chunks \<open>a\<close>, zero and \<open>b\<close>, newline, the callback
  receives \<open>ab\<close>.
\<close>

theorem C9_zero_byte_counterexample:
  "feed_all [[CHR ''a'', CHR 0x00], [CHR ''b'', CHR 0x0A]] = [''ab''] \<and>
   feed_all [[CHR ''a'', CHR 0x00, CHR ''b'', CHR 0x0A]] = [''a''] \<and>
   feed_all [[CHR ''a'', CHR 0x00], [CHR ''b'', CHR 0x0A]] \<noteq>
   feed_all [[CHR ''a'', CHR 0x00, CHR ''b'', CHR 0x0A]]"
  by (simp add: feed_all_def Feed_def construct_group_by_lines_def
      destroy_group_by_lines_def NUL_def NL_def)

text \<open>
  C9, amended: for every string \<open>s\<close> without a zero byte and every partition of
  \<open>s\<close> into consecutive chunks, feeding the chunks one at a time and then
  destroying the instance calls the callback with the same lines as feeding \<open>s\<close> in
  one call, and these are the lines of \<open>s\<close>: one for each newline, holding the text
  since the previous newline, and a last one at destruction for the text after the last
  newline exactly when that text is not empty.
\<close>

theorem C9_feed_chunks_same_lines:
  assumes "concat chunks = s" and "NUL \<notin> set s"
  shows "feed_all chunks = feed_all [s] \<and> feed_all [s] = lines_of s"
  using assms foldl_Feed_lines [of chunks construct_group_by_lines]
    foldl_Feed_lines [of "[s]" construct_group_by_lines]
  by (simp add: feed_all_def lines_of_def construct_group_by_lines_def)

theorem C9_feed_chunks_same_lines_witness:
  "concat [''on'', [CHR ''e'', CHR 0x0A, CHR 0x0A, CHR ''t''], ''wo''] =
     [CHR ''o'', CHR ''n'', CHR ''e'', CHR 0x0A, CHR 0x0A, CHR ''t'', CHR ''w'', CHR ''o''] \<and>
   NUL \<notin> set [CHR ''o'', CHR ''n'', CHR ''e'', CHR 0x0A, CHR 0x0A, CHR ''t'', CHR ''w'', CHR ''o''] \<and>
   feed_all [''on'', [CHR ''e'', CHR 0x0A, CHR 0x0A, CHR ''t''], ''wo''] = [''one'', [], ''two''] \<and>
   feed_all [[CHR ''o'', CHR ''n'', CHR ''e'', CHR 0x0A, CHR 0x0A, CHR ''t'', CHR ''w'', CHR ''o'']] =
     [''one'', [], ''two'']"
  using C9_feed_chunks_same_lines [of "[''on'', [CHR ''e'', CHR 0x0A, CHR 0x0A, CHR ''t''], ''wo'']"
      "[CHR ''o'', CHR ''n'', CHR ''e'', CHR 0x0A, CHR 0x0A, CHR ''t'', CHR ''w'', CHR ''o'']"]
  by (simp add: lines_of_def NUL_def NL_def)

end
